theory Spec2Isabelle
  imports Main "HOL-Library.Signed_Division" "HOL-Library.Sublist"
begin

section \<open>postdel: a terminal dashboard for the Postfix mail queue\<close>

text \<open>
  The program is one Go file, \<^verbatim>\<open>main.go\<close>: a Bubble Tea model (\<^verbatim>\<open>model\<close>) with its
  \<^verbatim>\<open>Init\<close>, \<^verbatim>\<open>Update\<close> and \<^verbatim>\<open>View\<close>, the parser of the \<^verbatim>\<open>mailq\<close> output, two
  half-page scrolling helpers and a text overlay. Go strings are byte strings: they are
  modelled as \<open>string\<close> (a list of 8-bit characters), \<^verbatim>\<open>len\<close> is \<open>length\<close> and
  \<^verbatim>\<open>s[i]\<close> is a byte. Go's \<^verbatim>\<open>int\<close> is modelled as \<open>int\<close>: every number of the program is
  a terminal size, a line count, a length or an index below a length, so the 64-bit range
  is never left.
  The integer division of Go truncates towards zero: it is \<open>sdiv\<close>.
\<close>

subsection \<open>Go strings\<close>

definition nl :: char where
  "nl = CHR 0x0A"

definition sp :: char where
  "sp = CHR 0x20"

text \<open>\<^verbatim>\<open>len\<close>.\<close>

definition len :: "'a list \<Rightarrow> int" where
  "len xs = int (length xs)"

text \<open>\<^verbatim>\<open>strings.Count(s, "\n")\<close>.\<close>

definition countNL :: "string \<Rightarrow> int" where
  "countNL s = int (count_list s nl)"

text \<open>
  \<^verbatim>\<open>strings.ToLower\<close> on the ASCII letters. The program compares the lowered key name
  with ASCII words only, none of which holds a \<^verbatim>\<open>k\<close> or an \<^verbatim>\<open>i\<close> (the two
  ASCII letters that are the lower case of a letter outside ASCII), so a name that holds a
  byte outside ASCII equals none of them before or after lowering, whatever Unicode does
  to it.
\<close>

text \<open>A byte as a number.\<close>

definition byte :: "char \<Rightarrow> nat" where
  "byte c = of_char c"

definition lowerByte :: "char \<Rightarrow> char" where
  "lowerByte c = (if byte CHR ''A'' \<le> byte c \<and> byte c \<le> byte CHR ''Z''
                  then char_of (byte c + 32) else c)"

definition toLower :: "string \<Rightarrow> string" where
  "toLower s = map lowerByte s"

subsection \<open>The scroll pane\<close>

text \<open>
  \<^verbatim>\<open>viewport.Model\<close> of the bubbles library: the fields the program reads and writes
  (\<^verbatim>\<open>Width\<close>, \<^verbatim>\<open>Height\<close>, \<^verbatim>\<open>YOffset\<close>) and the text it holds.
\<close>

record viewport =
  Width :: int
  Height :: int
  YOffset :: int
  content :: string

text \<open>
  Modelled from the spec: the methods of \<^verbatim>\<open>viewport.Model\<close> (package
  \<^verbatim>\<open>github.com/charmbracelet/bubbles/viewport\<close>, not part of the source tree). Section
  4.1 of the specification gives their contract: \<^verbatim>\<open>setContent\<close> replaces the content
  and leaves the offset alone, \<^verbatim>\<open>lineUp\<close> and \<^verbatim>\<open>lineDown\<close> shift the offset by
  \<open>n\<close> clamped to \<open>[0, maxOffset]\<close> with \<open>maxOffset = max 0 (totalLines - height)\<close>,
  \<^verbatim>\<open>gotoTop\<close> and \<^verbatim>\<open>gotoBottom\<close> set the offset to \<open>0\<close> and to \<open>maxOffset\<close>.
\<close>

definition viewportNew :: "int \<Rightarrow> int \<Rightarrow> viewport" where
  "viewportNew w h = \<lparr>Width = w, Height = h, YOffset = 0, content = []\<rparr>"

definition totalLines :: "viewport \<Rightarrow> int" where
  "totalLines v = countNL (content v) + 1"

definition maxYOffset :: "viewport \<Rightarrow> int" where
  "maxYOffset v = max 0 (totalLines v - Height v)"

definition clamp :: "int \<Rightarrow> int \<Rightarrow> int \<Rightarrow> int" where
  "clamp x lo hi = max lo (min hi x)"

definition SetContent :: "viewport \<Rightarrow> string \<Rightarrow> viewport" where
  "SetContent v s = v\<lparr>content := s\<rparr>"

definition LineUp :: "viewport \<Rightarrow> int \<Rightarrow> viewport" where
  "LineUp v n = v\<lparr>YOffset := clamp (YOffset v - n) 0 (maxYOffset v)\<rparr>"

definition LineDown :: "viewport \<Rightarrow> int \<Rightarrow> viewport" where
  "LineDown v n = v\<lparr>YOffset := clamp (YOffset v + n) 0 (maxYOffset v)\<rparr>"

definition GotoTop :: "viewport \<Rightarrow> viewport" where
  "GotoTop v = v\<lparr>YOffset := 0\<rparr>"

definition GotoBottom :: "viewport \<Rightarrow> viewport" where
  "GotoBottom v = v\<lparr>YOffset := maxYOffset v\<rparr>"

text \<open>\<^verbatim>\<open>scrollHalfUp\<close> and \<^verbatim>\<open>scrollHalfDown\<close> of the source; the pointer argument is
  returned updated.\<close>

definition scrollHalfUp :: "viewport \<Rightarrow> string \<Rightarrow> viewport" where
  "scrollHalfUp v rawText =
     (let half = Height v sdiv 2;
          offset = YOffset v
      in if offset < half then GotoTop v else LineUp v half)"

definition scrollHalfDown :: "viewport \<Rightarrow> string \<Rightarrow> viewport" where
  "scrollHalfDown v rawText =
     (let half = Height v sdiv 2;
          totalLines = countNL rawText + 1;
          maxOffset = totalLines - Height v
      in if maxOffset < 0 then GotoBottom v
         else let current = YOffset v;
                  rest = maxOffset - current
              in if rest < half then GotoBottom v else LineDown v half)"

subsection \<open>The model, the messages and the commands\<close>

text \<open>
  A Go \<^verbatim>\<open>error\<close> that is not \<^verbatim>\<open>nil\<close> is modelled by its message; the field
  \<^verbatim>\<open>err\<close> is \<open>None\<close> for \<^verbatim>\<open>nil\<close>.
\<close>

record model =
  showWarning :: bool
  warningReady :: bool
  warningView :: viewport
  entries :: "string list"
  selected :: int
  ready :: bool
  left :: viewport
  right :: viewport
  leftRaw :: string
  rightRaw :: string
  err :: "string option"
  focus :: int
  showDeleteDialog :: bool
  termWidth :: int
  termHeight :: int
  justDeleted :: bool

text \<open>
  The messages of the type switch of \<^verbatim>\<open>Update\<close>. A key message is modelled by the
  value of \<^verbatim>\<open>msg.String()\<close>, the only thing the program reads of it. \<open>OtherMsg\<close> is
  any message of another type.
\<close>

datatype msg =
    WindowSizeMsg int int
  | MailqIDsMsg "string list"
  | PostcatMsg string
  | ErrorMsg string
  | KeyMsg string
  | OtherMsg

text \<open>
  The commands \<^verbatim>\<open>Update\<close> returns to the runtime (\<open>None\<close> is \<^verbatim>\<open>nil\<close>):
  \<^verbatim>\<open>runMailqCmd\<close>, \<^verbatim>\<open>runPostcatCmd(id)\<close> and \<^verbatim>\<open>tea.Quit\<close>.
\<close>

datatype cmd = RunMailqCmd | RunPostcatCmd string | Quit

text \<open>
  \<^verbatim>\<open>deleteQueueID\<close> runs \<^verbatim>\<open>postsuper -d id\<close> inside the transition. The call is
  recorded, so that a transition shows every external operation it performs.
\<close>

datatype sync_call = PostsuperDelete string

datatype go_panic = IndexOutOfRange

text \<open>
  What the program takes from outside: the result of \<^verbatim>\<open>postsuper -d id\<close> (the combined
  output and the error, \<open>None\<close> for success) and the rendering functions of lipgloss and of
  the viewport, whose escape sequences depend on the terminal.
\<close>

record env =
  postsuper :: "string \<Rightarrow> string \<times> string option"
  selectedRender :: "string \<Rightarrow> string"
  borderRender :: "bool \<Rightarrow> string \<Rightarrow> string"
  warningBorderRender :: "string \<Rightarrow> string"
  dialogBoxRender :: "string \<Rightarrow> string"
  viewportView :: "viewport \<Rightarrow> string"
  joinHorizontalTop :: "string \<Rightarrow> string \<Rightarrow> string"
  placeTopLeft :: "int \<Rightarrow> int \<Rightarrow> string \<Rightarrow> string"
  placeCenter :: "int \<Rightarrow> int \<Rightarrow> string \<Rightarrow> string"

text \<open>The state \<^verbatim>\<open>main\<close> starts the program with: the zero value but for
  \<^verbatim>\<open>showWarning\<close>.\<close>

definition zeroViewport :: viewport where
  "zeroViewport = \<lparr>Width = 0, Height = 0, YOffset = 0, content = []\<rparr>"

definition initialModel :: "bool \<Rightarrow> model" where
  "initialModel showWarn =
     \<lparr>showWarning = showWarn, warningReady = False, warningView = zeroViewport,
      entries = [], selected = 0, ready = False,
      left = zeroViewport, right = zeroViewport, leftRaw = [], rightRaw = [],
      err = None, focus = 0, showDeleteDialog = False,
      termWidth = 0, termHeight = 0, justDeleted = False\<rparr>"

definition Init :: "model \<Rightarrow> cmd option" where
  "Init m = (if showWarning m then None else Some RunMailqCmd)"

subsection \<open>The helpers of the transition\<close>

text \<open>\<^verbatim>\<open>m.entries[i]\<close>: Go panics outside the slice.\<close>

definition index :: "string list \<Rightarrow> int \<Rightarrow> go_panic + string" where
  "index xs i = (if 0 \<le> i \<and> i < int (length xs) then Inr (xs ! nat i) else Inl IndexOutOfRange)"

text \<open>The loop of \<^verbatim>\<open>syncLeft\<close>, from index \<open>i\<close> on.\<close>

fun syncLeftLines :: "(string \<Rightarrow> string) \<Rightarrow> int \<Rightarrow> int \<Rightarrow> string list \<Rightarrow> string" where
  "syncLeftLines r sel i [] = []"
| "syncLeftLines r sel i (x # xs) =
     (if i = sel then r (''> '' @ x) else ''  '' @ x) @ [nl] @ syncLeftLines r sel (i + 1) xs"

definition syncLeft :: "env \<Rightarrow> model \<Rightarrow> model" where
  "syncLeft e m =
     (let raw = syncLeftLines (selectedRender e) (selected m) 0 (entries m)
      in m\<lparr>leftRaw := raw, left := SetContent (left m) raw\<rparr>)"

definition warnText :: string where
  "warnText =
     ''WARNING!'' @ [nl, nl] @
     ''Usually this program should be run as '' @ [CHR 0x22] @ ''root'' @ [CHR 0x22] @
     '' or '' @ [CHR 0x22] @ ''postfix'' @ [CHR 0x22] @ '' so that '' @ [CHR 0x22] @ ''mailq'' @
     [CHR 0x22] @ '' and '' @ [CHR 0x22] @ ''postcat'' @ [CHR 0x22] @ '' work properly.'' @ [nl, nl] @
     ''You are NOT root/postfix. Some functions may fail.'' @ [nl, nl] @
     ''Press any key (except q/esc) to continue, or '' @ [CHR 0x27] @ ''q'' @ [CHR 0x27] @ ''/'' @
     [CHR 0x27] @ ''esc'' @ [CHR 0x27] @ '' to cancel.''"

text \<open>\<^verbatim>\<open>syncWarningViewport\<close>; \<open>warnText\<close> is the literal after
  \<^verbatim>\<open>strings.TrimSpace\<close>.\<close>

definition syncWarningViewport :: "model \<Rightarrow> model" where
  "syncWarningViewport m = m\<lparr>warningView := SetContent (warningView m) warnText\<rparr>"

text \<open>The placeholder \<^verbatim>\<open>"Loading details..."\<close>, whose last character is the
  ellipsis U+2026, three bytes in UTF-8.\<close>

definition loadingText :: string where
  "loadingText = ''Loading details'' @ [CHR 0xE2, CHR 0x80, CHR 0xA6]"

text \<open>
  \<^verbatim>\<open>deleteQueueID\<close>. The message of the error is that of
  \<^verbatim>\<open>fmt.Errorf("error running postsuper -d %s: %w\nOutput:\n%s", id, err, string(out))\<close>.
\<close>

definition deleteErrorText :: "string \<Rightarrow> string \<Rightarrow> string \<Rightarrow> string" where
  "deleteErrorText x e out =
     ''error running postsuper -d '' @ x @ '': '' @ e @ [nl] @ ''Output:'' @ [nl] @ out"

definition deleteQueueID :: "env \<Rightarrow> model \<Rightarrow> model \<times> cmd option \<times> sync_call list" where
  "deleteQueueID e m =
     (if selected m < 0 \<or> selected m \<ge> int (length (entries m)) then (m, None, [])
      else let x = entries m ! nat (selected m)
           in case postsuper e x of
                (out, Some er) \<Rightarrow> (m\<lparr>err := Some (deleteErrorText x er out)\<rparr>, None, [PostsuperDelete x])
              | (out, None) \<Rightarrow> (m\<lparr>justDeleted := True\<rparr>, Some RunMailqCmd, [PostsuperDelete x]))"

subsection \<open>Update\<close>

text \<open>
  One equation for each case of the type switch. The result is the new model, the command
  and the external calls made meanwhile, or the panic of an index out of range. In
  \<^verbatim>\<open>return m, m.deleteQueueID()\<close> the call is made before \<^verbatim>\<open>m\<close> is copied into the
  result (the Go compiler evaluates the calls of a statement first), so the model returned
  holds what \<^verbatim>\<open>deleteQueueID\<close> wrote.
\<close>

type_synonym step = "go_panic + (model \<times> cmd option \<times> sync_call list)"

definition fetchSelected :: "model \<Rightarrow> step" where
  "fetchSelected m =
     (case index (entries m) (selected m) of
        Inl p \<Rightarrow> Inl p
      | Inr x \<Rightarrow> Inr (m, Some (RunPostcatCmd x), []))"

fun Update :: "env \<Rightarrow> model \<Rightarrow> msg \<Rightarrow> step" where
  "Update e m (WindowSizeMsg w h) =
     (let m = m\<lparr>termWidth := w, termHeight := h\<rparr>
      in if showWarning m then
           (let m = (if \<not> warningReady m
                     then m\<lparr>warningView := viewportNew (termWidth m - 6) (termHeight m - 11),
                            warningReady := True\<rparr>
                     else m\<lparr>warningView := (warningView m)\<lparr>Width := termWidth m - 6,
                                                              Height := termHeight m - 11\<rparr>\<rparr>)
            in Inr (syncWarningViewport m, None, []))
         else
           (let m = m\<lparr>ready := True\<rparr>;
                leftWidth = 14;
                rightWidth = termWidth m - leftWidth - 8;
                m = m\<lparr>left := (left m)\<lparr>Width := leftWidth, Height := termHeight m - 5\<rparr>\<rparr>;
                m = m\<lparr>right := (right m)\<lparr>Width := rightWidth, Height := termHeight m - 5\<rparr>\<rparr>
            in Inr (syncLeft e m, None, [])))"
| "Update e m (MailqIDsMsg ids) =
     (let m = m\<lparr>entries := ids\<rparr>;
          m = m\<lparr>selected := 0\<rparr>;
          m = syncLeft e m
      in if \<not> justDeleted m then
           (if length (entries m) > 0 then
              (let m = m\<lparr>rightRaw := loadingText\<rparr>;
                   m = m\<lparr>right := SetContent (right m) (rightRaw m)\<rparr>
               in fetchSelected m)
            else Inr (m, None, []))
         else Inr (m\<lparr>justDeleted := False\<rparr>, None, []))"
| "Update e m (PostcatMsg s) =
     (let m = m\<lparr>rightRaw := s\<rparr>;
          m = m\<lparr>right := SetContent (right m) (rightRaw m)\<rparr>;
          m = m\<lparr>right := GotoBottom (right m)\<rparr>
      in Inr (m, None, []))"
| "Update e m (ErrorMsg er) = Inr (m\<lparr>err := Some er\<rparr>, None, [])"
| "Update e m (KeyMsg k) =
     (if showDeleteDialog m then
        (if toLower k = ''y'' then Inr (deleteQueueID e (m\<lparr>showDeleteDialog := False\<rparr>))
         else if toLower k = ''n'' \<or> toLower k = ''enter'' \<or> toLower k = ''esc''
                 \<or> toLower k = ''ctrl+c''
              then Inr (m\<lparr>showDeleteDialog := False\<rparr>, None, [])
         else Inr (m, None, []))
      else if k = ''q'' \<or> k = ''esc'' \<or> k = ''ctrl+c'' then Inr (m, Some Quit, [])
      else if k = ''tab'' then Inr (m\<lparr>focus := 1 - focus m\<rparr>, None, [])
      else if k = ''d'' then Inr (m\<lparr>showDeleteDialog := True\<rparr>, None, [])
      else if showWarning m then Inr (m\<lparr>showWarning := False\<rparr>, Some RunMailqCmd, [])
      else if focus m = 0 then
        (if k = ''up'' then
           (if selected m > 0
            then fetchSelected (syncLeft e (m\<lparr>selected := selected m - 1\<rparr>))
            else Inr (m, None, []))
         else if k = ''down'' then
           (if selected m < int (length (entries m)) - 1
            then fetchSelected (syncLeft e (m\<lparr>selected := selected m + 1\<rparr>))
            else Inr (m, None, []))
         else if k = ''pgup'' then Inr (m\<lparr>left := scrollHalfUp (left m) (leftRaw m)\<rparr>, None, [])
         else if k = ''pgdown'' then Inr (m\<lparr>left := scrollHalfDown (left m) (leftRaw m)\<rparr>, None, [])
         else Inr (m, None, []))
      else
        (if k = ''up'' then Inr (m\<lparr>right := LineUp (right m) 1\<rparr>, None, [])
         else if k = ''down'' then Inr (m\<lparr>right := LineDown (right m) 1\<rparr>, None, [])
         else if k = ''pgup'' then Inr (m\<lparr>right := scrollHalfUp (right m) (rightRaw m)\<rparr>, None, [])
         else if k = ''pgdown'' then Inr (m\<lparr>right := scrollHalfDown (right m) (rightRaw m)\<rparr>, None, [])
         else Inr (m, None, [])))"
| "Update e m OtherMsg = Inr (m, None, [])"

subsection \<open>The overlay\<close>

text \<open>\<^verbatim>\<open>strings.Split(s, "\n")\<close>: one piece more than there are newlines.\<close>

fun splitNL :: "string \<Rightarrow> string list" where
  "splitNL [] = [[]]"
| "splitNL (c # cs) =
     (if c = nl then [] # splitNL cs
      else (case splitNL cs of [] \<Rightarrow> [[c]] | l # ls \<Rightarrow> (c # l) # ls))"

text \<open>\<^verbatim>\<open>strings.Join(xs, "\n")\<close>.\<close>

fun joinNL :: "string list \<Rightarrow> string" where
  "joinNL [] = []"
| "joinNL [x] = x"
| "joinNL (x # y # ys) = x @ [nl] @ joinNL (y # ys)"

definition maxInt :: "int \<Rightarrow> int \<Rightarrow> int" where
  "maxInt a b = (if a > b then a else b)"

definition padTo :: "string \<Rightarrow> int \<Rightarrow> string" where
  "padTo s w = (if len s \<ge> w then s else s @ replicate (nat (w - len s)) sp)"

text \<open>The loop of \<^verbatim>\<open>overlayLine\<close> writes one byte for each \<open>i\<close> below \<open>w\<close>.\<close>

definition overlayLine :: "string \<Rightarrow> string \<Rightarrow> string" where
  "overlayLine bgLine fgLine =
     (let w = maxInt (len bgLine) (len fgLine);
          bgLine = padTo bgLine w;
          fgLine = padTo fgLine w
      in map (\<lambda>i. if fgLine ! i = sp then bgLine ! i else fgLine ! i) [0..<nat w])"

text \<open>\<^verbatim>\<open>append(ls, make([]string, n)...)\<close> adds \<open>n\<close> empty strings.\<close>

definition padLines :: "string list \<Rightarrow> int \<Rightarrow> string list" where
  "padLines ls maxH = (if len ls < maxH then ls @ replicate (nat (maxH - len ls)) [] else ls)"

definition overlayStrings :: "string \<Rightarrow> string \<Rightarrow> string" where
  "overlayStrings bg fg =
     (let bgLines = splitNL bg;
          fgLines = splitNL fg;
          maxH = maxInt (len bgLines) (len fgLines);
          bgLines = padLines bgLines maxH;
          fgLines = padLines fgLines maxH;
          merged = map (\<lambda>i. overlayLine (bgLines ! i) (fgLines ! i)) [0..<nat maxH]
      in joinNL merged)"

subsection \<open>The parser of the listing\<close>

text \<open>
  \<^verbatim>\<open>bufio.Scanner\<close> with its default split function \<^verbatim>\<open>ScanLines\<close>: each call of
  \<^verbatim>\<open>Scan\<close> yields the bytes up to the next newline, without the newline and without
  one carriage return before it; the last line needs no newline, and nothing follows a
  final newline. The scanner holds a line in a buffer of at most
  \<^verbatim>\<open>bufio.MaxScanTokenSize\<close> bytes, 64 * 1024: on a line of that many bytes or more
  \<^verbatim>\<open>Scan\<close> returns false (the error is \<^verbatim>\<open>ErrTooLong\<close>, which the program does not
  look at) and the loop ends there.
\<close>

definition maxScanTokenSize :: nat where
  "maxScanTokenSize = 64 * 1024"

definition dropCR :: "string \<Rightarrow> string" where
  "dropCR l = (if l \<noteq> [] \<and> last l = CHR 0x0D then butlast l else l)"

function scanLines :: "string \<Rightarrow> string list" where
  "scanLines [] = []"
| "scanLines (c # cs) =
     (let line = takeWhile (\<lambda>x. x \<noteq> nl) (c # cs);
          rest = dropWhile (\<lambda>x. x \<noteq> nl) (c # cs)
      in if length line \<ge> maxScanTokenSize then []
         else dropCR line # scanLines (tl rest))"
  by pat_completeness auto
termination
proof (relation "measure length")
  fix c :: char and cs line rest
  assume "rest = dropWhile (\<lambda>x. x \<noteq> nl) (c # cs)"
  then have "length rest \<le> length (c # cs)"
    by (simp only: length_dropWhile_le)
  then show "(tl rest, c # cs) \<in> measure length"
    by simp
qed simp

text \<open>
  White space as \<^verbatim>\<open>unicode.IsSpace\<close> has it, which \<^verbatim>\<open>strings.TrimSpace\<close> and
  \<^verbatim>\<open>strings.Fields\<close> use: the six ASCII characters and, in UTF-8, U+0085, U+00A0, U+1680,
  U+2000 to U+200A, U+2028, U+2029, U+202F, U+205F, U+3000. No encoding is the prefix of
  another one, and the bytes after the first are continuation bytes, so reading the
  bytes one by one meets the same white space as decoding the runes does.
\<close>

definition spaceRunes :: "string list" where
  "spaceRunes =
     [[CHR 0x09], [CHR 0x0A], [CHR 0x0B], [CHR 0x0C], [CHR 0x0D], [CHR 0x20],
      [CHR 0xC2, CHR 0x85], [CHR 0xC2, CHR 0xA0],
      [CHR 0xE1, CHR 0x9A, CHR 0x80],
      [CHR 0xE2, CHR 0x80, CHR 0x80], [CHR 0xE2, CHR 0x80, CHR 0x81],
      [CHR 0xE2, CHR 0x80, CHR 0x82], [CHR 0xE2, CHR 0x80, CHR 0x83],
      [CHR 0xE2, CHR 0x80, CHR 0x84], [CHR 0xE2, CHR 0x80, CHR 0x85],
      [CHR 0xE2, CHR 0x80, CHR 0x86], [CHR 0xE2, CHR 0x80, CHR 0x87],
      [CHR 0xE2, CHR 0x80, CHR 0x88], [CHR 0xE2, CHR 0x80, CHR 0x89],
      [CHR 0xE2, CHR 0x80, CHR 0x8A],
      [CHR 0xE2, CHR 0x80, CHR 0xA8], [CHR 0xE2, CHR 0x80, CHR 0xA9],
      [CHR 0xE2, CHR 0x80, CHR 0xAF],
      [CHR 0xE2, CHR 0x81, CHR 0x9F],
      [CHR 0xE3, CHR 0x80, CHR 0x80]]"

definition contByte :: "char \<Rightarrow> bool" where
  "contByte c = (128 \<le> byte c \<and> byte c < 192)"

text \<open>The width in bytes of the white space rune a string starts with, or ends with;
  \<open>0\<close> when there is none.\<close>

definition spaceWidth :: "string \<Rightarrow> nat" where
  "spaceWidth s = (case find (\<lambda>p. prefix p s) spaceRunes of None \<Rightarrow> 0 | Some p \<Rightarrow> length p)"

definition spaceWidthLast :: "string \<Rightarrow> nat" where
  "spaceWidthLast s = (case find (\<lambda>p. suffix p s) spaceRunes of None \<Rightarrow> 0 | Some p \<Rightarrow> length p)"

text \<open>\<^verbatim>\<open>strings.TrimSpace\<close>: the leading white space goes, then the trailing.\<close>

fun trimLeft :: "string \<Rightarrow> string" where
  "trimLeft [] = []"
| "trimLeft (c # cs) =
     (if spaceWidth (c # cs) = 0 then c # cs
      else trimLeft (drop (spaceWidth (c # cs) - 1) cs))"

fun trimRight :: "string \<Rightarrow> string" where
  "trimRight s =
     (if s = [] \<or> spaceWidthLast s = 0 then s
      else trimRight (take (length s - spaceWidthLast s) s))"

declare trimRight.simps [simp del]

definition TrimSpace :: "string \<Rightarrow> string" where
  "TrimSpace s = trimRight (trimLeft s)"

text \<open>
  \<^verbatim>\<open>strings.Fields\<close>, one pass as in the library: \<open>cur\<close> is the field being read, closed
  by a white space rune or by the end.
\<close>

fun fieldsFrom :: "string \<Rightarrow> string \<Rightarrow> string list" where
  "fieldsFrom cur [] = (if cur = [] then [] else [cur])"
| "fieldsFrom cur (c # cs) =
     (if spaceWidth (c # cs) = 0 then fieldsFrom (cur @ [c]) cs
      else (if cur = [] then [] else [cur]) @ fieldsFrom [] (drop (spaceWidth (c # cs) - 1) cs))"

definition Fields :: "string \<Rightarrow> string list" where
  "Fields s = fieldsFrom [] s"

text \<open>
  \<^verbatim>\<open>looksLikeQueueID\<close>. The loop ranges over the runes; a byte outside ASCII belongs to
  a rune outside ASCII (or is a decoding error, U+FFFD), which fails the three ranges as
  the byte itself does.
\<close>

fun alnumRunes :: "string \<Rightarrow> bool" where
  "alnumRunes [] = True"
| "alnumRunes (r # rs) =
     (if (byte r < byte CHR ''0'' \<or> byte r > byte CHR ''9'') \<and>
         (byte r < byte CHR ''A'' \<or> byte r > byte CHR ''Z'') \<and>
         (byte r < byte CHR ''a'' \<or> byte r > byte CHR ''z'')
      then False else alnumRunes rs)"

definition looksLikeQueueID :: "string \<Rightarrow> bool" where
  "looksLikeQueueID s = (if len s < 3 \<or> len s > 20 then False else alnumRunes s)"

text \<open>The loop of \<^verbatim>\<open>parseMailqForIDs\<close> over the scanned lines, \<open>ids\<close> being the
  slice built so far.\<close>

fun parseLoop :: "string list \<Rightarrow> string list \<Rightarrow> string list" where
  "parseLoop ids [] = ids"
| "parseLoop ids (t # ts) =
     (let line = TrimSpace t
      in if line = [] then parseLoop ids ts
         else (case Fields line of
                 [] \<Rightarrow> parseLoop ids ts
               | f # fs \<Rightarrow> if looksLikeQueueID f then parseLoop (ids @ [f]) ts
                           else parseLoop ids ts))"

definition parseMailqForIDs :: "string \<Rightarrow> string list" where
  "parseMailqForIDs output = parseLoop [] (scanLines output)"

text \<open>\<^verbatim>\<open>runMailqCmd\<close> and the function \<^verbatim>\<open>runPostcatCmd\<close> returns, on what the
  external command gave back: its standard output, and its error or \<open>None\<close>.\<close>

definition runMailqCmd :: "string \<times> string option \<Rightarrow> msg" where
  "runMailqCmd r = (case r of (out, Some er) \<Rightarrow> ErrorMsg er
                            | (out, None) \<Rightarrow> MailqIDsMsg (parseMailqForIDs out))"

definition runPostcatCmd :: "string \<times> string option \<Rightarrow> msg" where
  "runPostcatCmd r = (case r of (out, Some er) \<Rightarrow> ErrorMsg er | (out, None) \<Rightarrow> PostcatMsg out)"

subsection \<open>The listing as the specification words it\<close>

text \<open>
  The first white-space-delimited field of a line: what follows the leading white space,
  up to the next white space. A line is blank when nothing follows the leading white
  space. An identifier has between 3 and 20 bytes, each one an ASCII letter or digit.
\<close>

fun upToSpace :: "string \<Rightarrow> string" where
  "upToSpace [] = []"
| "upToSpace (c # cs) = (if spaceWidth (c # cs) = 0 then c # upToSpace cs else [])"

definition firstField :: "string \<Rightarrow> string" where
  "firstField l = upToSpace (trimLeft l)"

definition blank :: "string \<Rightarrow> bool" where
  "blank l = (trimLeft l = [])"

definition alnumChars :: string where
  "alnumChars = ''0123456789ABCDEFGHIJKLMNOPQRSTUVWXYZabcdefghijklmnopqrstuvwxyz''"

definition idShaped :: "string \<Rightarrow> bool" where
  "idShaped f = (3 \<le> length f \<and> length f \<le> 20 \<and> list_all (\<lambda>c. c \<in> set alnumChars) f)"

text \<open>The identifiers of a list of lines: the first fields of the lines that are not blank,
  those of the shape of an identifier, in the order of the lines.\<close>

definition idsOfLines :: "string list \<Rightarrow> string list" where
  "idsOfLines ls = filter idShaped (map firstField (filter (\<lambda>l. \<not> blank l) ls))"

text \<open>What the body of the loop adds for one line.\<close>

definition lineIds :: "string \<Rightarrow> string list" where
  "lineIds t = (if \<not> blank t \<and> looksLikeQueueID (firstField t) then [firstField t] else [])"

subsection \<open>View\<close>

text \<open>
  The error screen is plain text; the other screens go through lipgloss, taken from the
  environment. \<^verbatim>\<open>%v\<close> of an error is its message.
\<close>

definition helpLine :: string where
  "helpLine = [nl] @ ''[TAB] to switch focus, '' @ [CHR 0x27] @ ''d'' @ [CHR 0x27] @
     '' to delete, '' @ [CHR 0x27] @ ''q'' @ [CHR 0x27] @ '' to quit.''"

definition pleaseWait :: string where
  "pleaseWait = ''Please wait'' @ [CHR 0xE2, CHR 0x80, CHR 0xA6]"

definition errorScreen :: "string \<Rightarrow> string" where
  "errorScreen er = ''Error:'' @ [nl] @ er @ [nl] @ ''(q to quit)''"

definition View :: "env \<Rightarrow> model \<Rightarrow> string" where
  "View e m =
     (case err m of
        Some er \<Rightarrow> errorScreen er
      | None \<Rightarrow>
          if showWarning m then
            (if \<not> warningReady m then ''Initializing terminal...''
             else warningBorderRender e (viewportView e (warningView m)) @ [nl] @
                  ''(q to quit, any other key to continue)'')
          else if \<not> ready m then pleaseWait
          else
            (let leftView = borderRender e (focus m = 0) (viewportView e (left m));
                 rightView = borderRender e (focus m \<noteq> 0) (viewportView e (right m));
                 mainLayout = joinHorizontalTop e leftView rightView;
                 background = placeTopLeft e (termWidth m) (termHeight m) (mainLayout @ helpLine)
             in if \<not> showDeleteDialog m then background
                else
                  (let dialogBox = dialogBoxRender e ''really delete [y/N]?'';
                       foreground = placeCenter e (termWidth m) (termHeight m) dialogBox
                   in overlayStrings background foreground)))"

subsection \<open>The event loop\<close>

text \<open>
  The runtime hands the messages to \<^verbatim>\<open>Update\<close> one after the other, each on the model
  the one before returned. Each message comes with the environment of its transition.
  The run collects what each transition asked for.
\<close>

fun run :: "model \<Rightarrow> (env \<times> msg) list \<Rightarrow> go_panic + (model \<times> (cmd option \<times> sync_call list) list)" where
  "run m [] = Inr (m, [])"
| "run m ((e, x) # xs) =
     (case Update e m x of
        Inl p \<Rightarrow> Inl p
      | Inr (m', c, g) \<Rightarrow>
          (case run m' xs of
             Inl p \<Rightarrow> Inl p
           | Inr (m'', out) \<Rightarrow> Inr (m'', (c, g) # out)))"

text \<open>
  The result of a transition with the error field of the new model blanked, and what the
  transition asked for: its command and its external calls.
\<close>

definition forgetErr :: "step \<Rightarrow> step" where
  "forgetErr r = (case r of Inl p \<Rightarrow> Inl p | Inr (m, c, g) \<Rightarrow> Inr (m\<lparr>err := None\<rparr>, c, g))"

definition requests :: "step \<Rightarrow> go_panic + (cmd option \<times> sync_call list)" where
  "requests r = (case r of Inl p \<Rightarrow> Inl p | Inr (m, c, g) \<Rightarrow> Inr (c, g))"

subsection \<open>The states the program reaches\<close>

text \<open>The selection is an index of the entries, or \<open>0\<close> when there are none.\<close>

definition selectionOk :: "model \<Rightarrow> bool" where
  "selectionOk m =
     (0 \<le> selected m \<and> (selected m < int (length (entries m)) \<or> (entries m = [] \<and> selected m = 0)))"

subsection \<open>Sample environments and states\<close>

text \<open>A terminal without styling, around a \<^verbatim>\<open>postsuper\<close> that succeeds or fails.\<close>

definition plainEnv :: "(string \<Rightarrow> string \<times> string option) \<Rightarrow> env" where
  "plainEnv ps =
     \<lparr>postsuper = ps, selectedRender = (\<lambda>s. s), borderRender = (\<lambda>f s. s),
      warningBorderRender = (\<lambda>s. s), dialogBoxRender = (\<lambda>s. s),
      viewportView = content, joinHorizontalTop = (\<lambda>a b. a @ b),
      placeTopLeft = (\<lambda>w h s. s), placeCenter = (\<lambda>w h s. s)\<rparr>"

definition postsuperOk :: "string \<Rightarrow> string \<times> string option" where
  "postsuperOk x = (''postsuper: Deleted: 1 message'', None)"

definition postsuperFails :: "string \<Rightarrow> string \<times> string option" where
  "postsuperFails x = (''postsuper: fatal: use of command is restricted'', Some ''exit status 1'')"

definition envOk :: env where
  "envOk = plainEnv postsuperOk"

definition envFails :: env where
  "envFails = plainEnv postsuperFails"

text \<open>The state after the listing \<^verbatim>\<open>AB12CD\<close>, \<^verbatim>\<open>ZZ99ZZ\<close> on a terminal of 80 by 24, with
  the detail of the first entry shown.\<close>

definition twoEntries :: model where
  "twoEntries =
     \<lparr>showWarning = False, warningReady = False, warningView = zeroViewport,
      entries = [''AB12CD'', ''ZZ99ZZ''], selected = 0, ready = True,
      left = \<lparr>Width = 14, Height = 19, YOffset = 0,
              content = ''> AB12CD'' @ [nl] @ ''  ZZ99ZZ'' @ [nl]\<rparr>,
      right = \<lparr>Width = 58, Height = 19, YOffset = 0, content = ''*** ENVELOPE RECORDS ***''\<rparr>,
      leftRaw = ''> AB12CD'' @ [nl] @ ''  ZZ99ZZ'' @ [nl],
      rightRaw = ''*** ENVELOPE RECORDS ***'',
      err = None, focus = 0, showDeleteDialog = False,
      termWidth = 80, termHeight = 24, justDeleted = False\<rparr>"

text \<open>A pane of five rows over nine lines of text, scrolled down by one line.\<close>

definition longPane :: viewport where
  "longPane = \<lparr>Width = 14, Height = 5, YOffset = 1,
     content = ''a'' @ [nl] @ ''b'' @ [nl] @ ''c'' @ [nl] @ ''d'' @ [nl] @ ''e'' @ [nl] @
               ''f'' @ [nl] @ ''g'' @ [nl] @ ''h'' @ [nl] @ ''i''\<rparr>"

text \<open>An output of \<^verbatim>\<open>mailq\<close>, with a carriage return, white space outside ASCII and
  first fields that are no identifiers.\<close>

definition mailqSample :: string where
 "mailqSample = ''-Queue ID-  --Size-- ----Arrival Time---- -Sender/Recipient-------'' @ [nl] @
   ''AB12CD*    1234 Mon Jan  1 10:00:00  a@example.org'' @ [nl] @
   ''AB12CD     1234 Mon Jan  1 10:00:00  a@example.org'' @ [CHR 0x0D, nl] @
   ''         (connect to mx.example.org: Connection timed out)'' @ [nl] @
   ''                                         b@example.org'' @ [nl] @ [nl] @
   [CHR 0xC2, CHR 0xA0] @ ''ZZ99ZZ'' @ [CHR 0xE3, CHR 0x80, CHR 0x80] @ ''555 Tue'' @ [nl] @
   ''AB   x'' @ [nl] @ ''AB-12 y'' @ [nl] @ ''0123456789abcdefghij k'' @ [nl] @ ''0123456789abcdefghijk k'' @ [nl] @
   ''-- 2 Kbytes in 2 Requests.''"

text \<open>A line of 64 * 1024 bytes.\<close>

definition longLine :: string where
  "longLine = replicate maxScanTokenSize (CHR ''x'')"

text \<open>Three grids of two rows and four columns, the last one blank.\<close>

definition bgGrid :: string where
  "bgGrid = ''ab c'' @ [nl] @ ''defg''"

definition fgGrid :: string where
  "fgGrid = '' XY '' @ [nl] @ ''    ''"

definition blankGrid :: string where
  "blankGrid = ''    '' @ [nl] @ ''    ''"

section \<open>Properties\<close>

subsection \<open>Key names and the delete command\<close>

lemma toLower_names:
  "toLower ''y'' = ''y''" "toLower ''Y'' = ''y''" "toLower ''n'' = ''n''"
  "toLower ''enter'' = ''enter''" "toLower ''esc'' = ''esc''" "toLower ''ctrl+c'' = ''ctrl+c''"
  by code_simp+

lemma deleteQueueID_out_of_range:
  "selected m < 0 \<or> int (length (entries m)) \<le> selected m \<Longrightarrow> deleteQueueID e m = (m, None, [])"
  by (simp add: deleteQueueID_def)

lemma deleteQueueID_ok:
  "0 \<le> selected m \<Longrightarrow> selected m < int (length (entries m)) \<Longrightarrow>
   postsuper e (entries m ! nat (selected m)) = (out, None) \<Longrightarrow>
   deleteQueueID e m = (m\<lparr>justDeleted := True\<rparr>, Some RunMailqCmd,
                        [PostsuperDelete (entries m ! nat (selected m))])"
  by (simp add: deleteQueueID_def Let_def)

lemma deleteQueueID_fails:
  "0 \<le> selected m \<Longrightarrow> selected m < int (length (entries m)) \<Longrightarrow>
   postsuper e (entries m ! nat (selected m)) = (out, Some er) \<Longrightarrow>
   deleteQueueID e m = (m\<lparr>err := Some (deleteErrorText (entries m ! nat (selected m)) er out)\<rparr>,
                        None, [PostsuperDelete (entries m ! nat (selected m))])"
  by (simp add: deleteQueueID_def Let_def)

lemma Update_dialog_yes:
  "showDeleteDialog m \<Longrightarrow> k = ''y'' \<or> k = ''Y'' \<Longrightarrow>
   Update e m (KeyMsg k) = Inr (deleteQueueID e (m\<lparr>showDeleteDialog := False\<rparr>))"
  by (auto simp: toLower_names)

lemma deleteErrorText_suffix: "suffix out (deleteErrorText x er out)"
proof -
  have "deleteErrorText x er out =
        (''error running postsuper -d '' @ x @ '': '' @ er @ [nl] @ ''Output:'' @ [nl]) @ out"
    by (simp add: deleteErrorText_def)
  then show ?thesis unfolding suffix_def by blast
qed

text \<open>
  Claim C9. When \<^verbatim>\<open>postsuper -d\<close> fails, \<^verbatim>\<open>deleteQueueID\<close> changes the error field and
  nothing else: the entries, the selection, the two panes and \<^verbatim>\<open>justDeleted\<close> are those
  of before, no command is returned (no listing follows), and the message of the error
  ends with the combined output of the tool. The key press that carried the delete
  (\<^verbatim>\<open>y\<close> in the dialog) adds the hiding of the dialog and nothing more.
\<close>

theorem delete_failure_atomic:
  assumes "0 \<le> selected m" and "selected m < int (length (entries m))"
    and "postsuper e (entries m ! nat (selected m)) = (out, Some er)"
  shows "deleteQueueID e m =
           (m\<lparr>err := Some (deleteErrorText (entries m ! nat (selected m)) er out)\<rparr>, None,
            [PostsuperDelete (entries m ! nat (selected m))])
         \<and> suffix out (deleteErrorText (entries m ! nat (selected m)) er out)
         \<and> (showDeleteDialog m \<and> (k = ''y'' \<or> k = ''Y'') \<longrightarrow>
              Update e m (KeyMsg k) =
                Inr (m\<lparr>showDeleteDialog := False,
                       err := Some (deleteErrorText (entries m ! nat (selected m)) er out)\<rparr>, None,
                     [PostsuperDelete (entries m ! nat (selected m))]))"
proof -
  let ?m = "m\<lparr>showDeleteDialog := False\<rparr>"
  have "deleteQueueID e ?m =
          (?m\<lparr>err := Some (deleteErrorText (entries m ! nat (selected m)) er out)\<rparr>, None,
           [PostsuperDelete (entries m ! nat (selected m))])"
    using assms deleteQueueID_fails [of ?m e out er] by simp
  then show ?thesis
    using assms deleteQueueID_fails [of m e out er] deleteErrorText_suffix [of out]
      Update_dialog_yes [of m k e] by simp
qed

theorem delete_failure_atomic_witness:
  "deleteQueueID envFails twoEntries =
     (twoEntries\<lparr>err := Some (deleteErrorText ''AB12CD'' ''exit status 1''
         ''postsuper: fatal: use of command is restricted'')\<rparr>, None, [PostsuperDelete ''AB12CD''])
   \<and> Update envFails (twoEntries\<lparr>showDeleteDialog := True\<rparr>) (KeyMsg ''y'') =
       Inr (twoEntries\<lparr>err := Some (deleteErrorText ''AB12CD'' ''exit status 1''
         ''postsuper: fatal: use of command is restricted'')\<rparr>, None, [PostsuperDelete ''AB12CD''])"
  using delete_failure_atomic [of twoEntries envFails
      "''postsuper: fatal: use of command is restricted''" "''exit status 1''"]
    delete_failure_atomic [of "twoEntries\<lparr>showDeleteDialog := True\<rparr>" envFails
      "''postsuper: fatal: use of command is restricted''" "''exit status 1''" "''y''"]
  by (simp add: twoEntries_def envFails_def plainEnv_def postsuperFails_def)

text \<open>
  Claim C3. With the confirmation dialog shown, \<^verbatim>\<open>y\<close> and \<^verbatim>\<open>Y\<close> hide the dialog and
  run the delete of the selected entry when the selection is in range (and do nothing
  else when it is not); when the delete succeeds the suppression flag is set and a listing
  is requested. Each of \<^verbatim>\<open>n\<close>, \<^verbatim>\<open>enter\<close>, \<^verbatim>\<open>esc\<close> and \<^verbatim>\<open>ctrl+c\<close> hides the dialog
  and changes nothing else, with no command and no external call; so the delete key
  followed by \<^verbatim>\<open>n\<close> gives back the state of before.
\<close>

theorem confirm_dialog_keys:
  assumes "showDeleteDialog m"
  shows "(k = ''y'' \<or> k = ''Y'' \<longrightarrow>
            (selected m < 0 \<or> int (length (entries m)) \<le> selected m \<longrightarrow>
               Update e m (KeyMsg k) = Inr (m\<lparr>showDeleteDialog := False\<rparr>, None, []))
          \<and> (0 \<le> selected m \<and> selected m < int (length (entries m)) \<longrightarrow>
               (\<exists>m' c. Update e m (KeyMsg k) =
                          Inr (m', c, [PostsuperDelete (entries m ! nat (selected m))])
                        \<and> \<not> showDeleteDialog m')
               \<and> (snd (postsuper e (entries m ! nat (selected m))) = None \<longrightarrow>
                    Update e m (KeyMsg k) =
                      Inr (m\<lparr>showDeleteDialog := False, justDeleted := True\<rparr>, Some RunMailqCmd,
                           [PostsuperDelete (entries m ! nat (selected m))]))))
       \<and> (k = ''n'' \<or> k = ''enter'' \<or> k = ''esc'' \<or> k = ''ctrl+c'' \<longrightarrow>
            Update e m (KeyMsg k) = Inr (m\<lparr>showDeleteDialog := False\<rparr>, None, []))
       \<and> Update e (m\<lparr>showDeleteDialog := False\<rparr>) (KeyMsg ''d'') = Inr (m, None, [])"
proof -
  let ?m = "m\<lparr>showDeleteDialog := False\<rparr>"
  let ?x = "entries m ! nat (selected m)"
  have y: "Update e m (KeyMsg k) = Inr (deleteQueueID e ?m)" if "k = ''y'' \<or> k = ''Y''"
    using that by (rule Update_dialog_yes [OF assms])
  have a: "Update e m (KeyMsg k) = Inr (?m, None, [])"
    if "k = ''y'' \<or> k = ''Y''" "selected m < 0 \<or> int (length (entries m)) \<le> selected m"
    using y [OF that(1)] that(2) deleteQueueID_out_of_range [of ?m e] by simp
  have b: "\<exists>m' c. Update e m (KeyMsg k) = Inr (m', c, [PostsuperDelete ?x]) \<and> \<not> showDeleteDialog m'"
    if "k = ''y'' \<or> k = ''Y''" "0 \<le> selected m \<and> selected m < int (length (entries m))"
  proof (cases "postsuper e ?x")
    case (Pair out r)
    show ?thesis
    proof (cases r)
      case None
      with Pair that(2) have "deleteQueueID e ?m =
          (?m\<lparr>justDeleted := True\<rparr>, Some RunMailqCmd, [PostsuperDelete ?x])"
        using deleteQueueID_ok [of ?m e out] by simp
      with y [OF that(1)] show ?thesis by simp
    next
      case (Some er)
      with Pair that(2) have "deleteQueueID e ?m =
          (?m\<lparr>err := Some (deleteErrorText ?x er out)\<rparr>, None, [PostsuperDelete ?x])"
        using deleteQueueID_fails [of ?m e out er] by simp
      with y [OF that(1)] show ?thesis by simp
    qed
  qed
  have c: "Update e m (KeyMsg k) =
             Inr (?m\<lparr>justDeleted := True\<rparr>, Some RunMailqCmd, [PostsuperDelete ?x])"
    if k: "k = ''y'' \<or> k = ''Y''"
      and r: "0 \<le> selected m \<and> selected m < int (length (entries m))"
      and ok: "snd (postsuper e ?x) = None"
  proof -
    obtain out where "postsuper e ?x = (out, None)"
      using ok by (cases "postsuper e ?x") auto
    with r have "deleteQueueID e ?m =
        (?m\<lparr>justDeleted := True\<rparr>, Some RunMailqCmd, [PostsuperDelete ?x])"
      using deleteQueueID_ok [of ?m e out] by simp
    with y [OF k] show ?thesis by simp
  qed
  have d: "Update e m (KeyMsg k) = Inr (?m, None, [])"
    if "k = ''n'' \<or> k = ''enter'' \<or> k = ''esc'' \<or> k = ''ctrl+c''"
    using that assms by (auto simp: toLower_names)
  have f: "Update e ?m (KeyMsg ''d'') = Inr (m, None, [])"
    using assms by simp
  show ?thesis using a b c d f by blast
qed

theorem confirm_dialog_keys_witness:
  "Update envOk (twoEntries\<lparr>showDeleteDialog := True\<rparr>) (KeyMsg ''Y'') =
     Inr (twoEntries\<lparr>justDeleted := True\<rparr>, Some RunMailqCmd, [PostsuperDelete ''AB12CD''])
   \<and> Update envOk (twoEntries\<lparr>showDeleteDialog := True\<rparr>) (KeyMsg ''esc'') = Inr (twoEntries, None, [])
   \<and> Update envOk twoEntries (KeyMsg ''d'') = Inr (twoEntries\<lparr>showDeleteDialog := True\<rparr>, None, [])"
  using confirm_dialog_keys [of "twoEntries\<lparr>showDeleteDialog := True\<rparr>" "''Y''" envOk]
    confirm_dialog_keys [of "twoEntries\<lparr>showDeleteDialog := True\<rparr>" "''esc''" envOk]
  by (simp add: twoEntries_def envOk_def plainEnv_def postsuperOk_def)

subsection \<open>The fields a transition leaves alone\<close>

lemma syncLeft_fields [simp]:
  "err (syncLeft e m) = err m" "entries (syncLeft e m) = entries m"
  "selected (syncLeft e m) = selected m" "rightRaw (syncLeft e m) = rightRaw m"
  "right (syncLeft e m) = right m" "justDeleted (syncLeft e m) = justDeleted m"
  "showWarning (syncLeft e m) = showWarning m" "showDeleteDialog (syncLeft e m) = showDeleteDialog m"
  "focus (syncLeft e m) = focus m"
  by (simp_all add: syncLeft_def Let_def)

lemma fetchSelected_Inr:
  "fetchSelected m = Inr (m', c, g) \<Longrightarrow>
   m' = m \<and> g = [] \<and> 0 \<le> selected m \<and> selected m < int (length (entries m))
   \<and> c = Some (RunPostcatCmd (entries m ! nat (selected m)))"
  by (auto simp: fetchSelected_def index_def split: if_splits)

lemma fetchSelected_in_range:
  "0 \<le> selected m \<Longrightarrow> selected m < int (length (entries m)) \<Longrightarrow>
   fetchSelected m = Inr (m, Some (RunPostcatCmd (entries m ! nat (selected m))), [])"
  by (simp add: fetchSelected_def index_def)

lemma deleteQueueID_err:
  "deleteQueueID e m = (m', c, g) \<Longrightarrow> err m \<noteq> None \<Longrightarrow> err m' \<noteq> None"
  by (auto simp: deleteQueueID_def Let_def split: if_splits prod.splits option.splits)

lemma deleteQueueID_selection:
  "deleteQueueID e m = (m', c, g) \<Longrightarrow> entries m' = entries m \<and> selected m' = selected m"
  by (auto simp: deleteQueueID_def Let_def split: if_splits prod.splits option.splits)

subsection \<open>No transition panics\<close>

text \<open>
  The two reads \<^verbatim>\<open>m.entries[m.selected]\<close> of the navigation are the only places where
  \<^verbatim>\<open>Update\<close> can panic. From a state whose selection is an index of the entries (the
  initial state is one) every message is handled, and the new state is such a state.
\<close>

lemma selectionOk_same:
  "entries m' = entries m \<Longrightarrow> selected m' = selected m \<Longrightarrow> selectionOk m \<Longrightarrow> selectionOk m'"
  by (simp add: selectionOk_def)

lemma Update_key_plain:
  assumes "\<not> showDeleteDialog m" "\<not> showWarning m"
    "k \<noteq> ''q''" "k \<noteq> ''esc''" "k \<noteq> ''ctrl+c''" "k \<noteq> ''tab''" "k \<noteq> ''d''"
  shows "Update e m (KeyMsg k) =
     (if focus m = 0 then
        (if k = ''up'' then
           (if selected m > 0
            then fetchSelected (syncLeft e (m\<lparr>selected := selected m - 1\<rparr>))
            else Inr (m, None, []))
         else if k = ''down'' then
           (if selected m < int (length (entries m)) - 1
            then fetchSelected (syncLeft e (m\<lparr>selected := selected m + 1\<rparr>))
            else Inr (m, None, []))
         else if k = ''pgup'' then Inr (m\<lparr>left := scrollHalfUp (left m) (leftRaw m)\<rparr>, None, [])
         else if k = ''pgdown'' then Inr (m\<lparr>left := scrollHalfDown (left m) (leftRaw m)\<rparr>, None, [])
         else Inr (m, None, []))
      else
        (if k = ''up'' then Inr (m\<lparr>right := LineUp (right m) 1\<rparr>, None, [])
         else if k = ''down'' then Inr (m\<lparr>right := LineDown (right m) 1\<rparr>, None, [])
         else if k = ''pgup'' then Inr (m\<lparr>right := scrollHalfUp (right m) (rightRaw m)\<rparr>, None, [])
         else if k = ''pgdown'' then Inr (m\<lparr>right := scrollHalfDown (right m) (rightRaw m)\<rparr>, None, [])
         else Inr (m, None, [])))"
  using assms by simp

lemma nav_selectionOk:
  assumes "selectionOk m"
  shows "selected m > 0 \<Longrightarrow>
           fetchSelected (syncLeft e (m\<lparr>selected := selected m - 1\<rparr>)) =
             Inr (syncLeft e (m\<lparr>selected := selected m - 1\<rparr>),
                  Some (RunPostcatCmd (entries m ! nat (selected m - 1))), [])
           \<and> selectionOk (syncLeft e (m\<lparr>selected := selected m - 1\<rparr>))"
    and "selected m < int (length (entries m)) - 1 \<Longrightarrow>
           fetchSelected (syncLeft e (m\<lparr>selected := selected m + 1\<rparr>)) =
             Inr (syncLeft e (m\<lparr>selected := selected m + 1\<rparr>),
                  Some (RunPostcatCmd (entries m ! nat (selected m + 1))), [])
           \<and> selectionOk (syncLeft e (m\<lparr>selected := selected m + 1\<rparr>))"
  using assms by (auto simp: selectionOk_def fetchSelected_def index_def)

lemma Update_key_selectionOk:
  assumes ok: "selectionOk m"
  shows "\<exists>m' c g. Update e m (KeyMsg k) = Inr (m', c, g) \<and> selectionOk m'"
proof (cases "showDeleteDialog m")
  case True
  obtain m' c g where d: "deleteQueueID e (m\<lparr>showDeleteDialog := False\<rparr>) = (m', c, g)"
    by (cases "deleteQueueID e (m\<lparr>showDeleteDialog := False\<rparr>)") auto
  from deleteQueueID_selection [OF d] ok have ok': "selectionOk m'"
    by (simp add: selectionOk_def)
  have ok2: "selectionOk (m\<lparr>showDeleteDialog := False\<rparr>)"
    using ok by (simp add: selectionOk_def)
  show ?thesis
  proof (cases "toLower k = ''y''")
    case y: True
    with True d ok' show ?thesis by simp
  next
    case False
    with True ok ok2 show ?thesis by simp
  qed
next
  case nd: False
  show ?thesis
  proof (cases "k = ''q'' \<or> k = ''esc'' \<or> k = ''ctrl+c''")
    case True
    with nd ok show ?thesis by auto
  next
    case nq: False
    show ?thesis
    proof (cases "k = ''tab'' \<or> k = ''d''")
      case True
      have "selectionOk (m\<lparr>focus := 1 - focus m\<rparr>)" "selectionOk (m\<lparr>showDeleteDialog := True\<rparr>)"
        using ok by (simp_all add: selectionOk_def)
      with True nd show ?thesis by auto
    next
      case nt: False
      show ?thesis
      proof (cases "showWarning m")
        case True
        have "selectionOk (m\<lparr>showWarning := False\<rparr>)"
          using ok by (simp add: selectionOk_def)
        with True nd nq nt show ?thesis by simp
      next
        case nw: False
        have ne: "k \<noteq> ''q''" "k \<noteq> ''esc''" "k \<noteq> ''ctrl+c''" "k \<noteq> ''tab''" "k \<noteq> ''d''"
          using nq nt by auto
        note u = Update_key_plain [OF nd nw ne, of e]
        have s: "selectionOk (m\<lparr>left := l\<rparr>)" "selectionOk (m\<lparr>right := r\<rparr>)" for l r
          using ok by (simp_all add: selectionOk_def)
        show ?thesis
          unfolding u using ok s nav_selectionOk [OF ok, of e] by simp
      qed
    qed
  qed
qed

lemma Update_selectionOk:
  assumes "selectionOk m"
  shows "\<exists>m' c g. Update e m x = Inr (m', c, g) \<and> selectionOk m'"
proof (cases x)
  case (KeyMsg k)
  then show ?thesis using Update_key_selectionOk [OF assms] by simp
next
  case (MailqIDsMsg ids)
  then show ?thesis
    by (cases ids) (simp_all add: Let_def selectionOk_def fetchSelected_def index_def)
next
  case (WindowSizeMsg w h)
  then show ?thesis using assms
    by (simp add: Let_def selectionOk_def syncWarningViewport_def)
next
  case (PostcatMsg s)
  then show ?thesis using assms by (simp add: Let_def selectionOk_def)
next
  case (ErrorMsg er)
  then show ?thesis using assms by (simp add: selectionOk_def)
next
  case OtherMsg
  then show ?thesis using assms by simp
qed

lemma initialModel_selectionOk: "selectionOk (initialModel w)"
  by (simp add: selectionOk_def initialModel_def)

text \<open>The sample state is the one the program is in after the first window size, the
  first listing and the detail of the first entry.\<close>

lemma twoEntries_reachable:
  "run (initialModel False)
     [(envOk, WindowSizeMsg 80 24), (envOk, MailqIDsMsg [''AB12CD'', ''ZZ99ZZ'']),
      (envOk, PostcatMsg ''*** ENVELOPE RECORDS ***'')] =
   Inr (twoEntries, [(None, []), (Some (RunPostcatCmd ''AB12CD''), []), (None, [])])"
  by code_simp

subsection \<open>The error state\<close>

lemma Update_key_err:
  "Update e m (KeyMsg k) = Inr (m', c, g) \<Longrightarrow> err m \<noteq> None \<Longrightarrow> err m' \<noteq> None"
  by (auto split: if_splits dest!: fetchSelected_Inr deleteQueueID_err)

lemma Update_err:
  "Update e m x = Inr (m', c, g) \<Longrightarrow> err m \<noteq> None \<Longrightarrow> err m' \<noteq> None"
proof (cases x)
  case (KeyMsg k)
  then show "Update e m x = Inr (m', c, g) \<Longrightarrow> err m \<noteq> None \<Longrightarrow> err m' \<noteq> None"
    using Update_key_err by blast
qed (auto simp: Let_def syncWarningViewport_def split: if_splits dest!: fetchSelected_Inr)

lemma run_err:
  "run m xs = Inr (m', out) \<Longrightarrow> err m \<noteq> None \<Longrightarrow> err m' \<noteq> None"
proof (induction xs arbitrary: m out)
  case Nil
  then show ?case by simp
next
  case (Cons a xs)
  obtain e x where a: "a = (e, x)" by (cases a)
  from Cons.prems(1) a obtain m1 c g out1 where
    u: "Update e m x = Inr (m1, c, g)" and r: "run m1 xs = Inr (m', out1)"
    by (auto split: sum.splits prod.splits)
  from Update_err [OF u Cons.prems(2)] have "err m1 \<noteq> None" .
  from Cons.IH [OF r this] show ?case .
qed

text \<open>\<^verbatim>\<open>Update\<close> does not read the error field: two models that differ in it only are taken
  to two results that differ in it only.\<close>

lemma forgetErr_Inr [simp]: "forgetErr (Inr (m, c, g)) = Inr (m\<lparr>err := None\<rparr>, c, g)"
  by (simp add: forgetErr_def)

lemma requests_forgetErr: "forgetErr a = forgetErr b \<Longrightarrow> requests a = requests b"
  by (auto simp: forgetErr_def requests_def split: sum.splits prod.splits)

lemma syncLeft_err: "syncLeft e (m\<lparr>err := x\<rparr>) = (syncLeft e m)\<lparr>err := x\<rparr>"
  by (simp add: syncLeft_def Let_def)

lemma fetchSelected_err:
  "forgetErr (fetchSelected (m\<lparr>err := x\<rparr>)) = forgetErr (fetchSelected m)"
  by (simp add: fetchSelected_def index_def)

lemma deleteQueueID_err_free:
  "forgetErr (Inr (deleteQueueID e (m\<lparr>err := x\<rparr>))) = forgetErr (Inr (deleteQueueID e m))"
  by (simp add: deleteQueueID_def Let_def forgetErr_def split: prod.splits option.splits)

lemma Update_key_err_free:
  "forgetErr (Update e (m\<lparr>err := x\<rparr>) (KeyMsg k)) = forgetErr (Update e m (KeyMsg k))"
proof (cases "showDeleteDialog m")
  case True
  have d: "forgetErr (Inr (deleteQueueID e (m\<lparr>err := x, showDeleteDialog := False\<rparr>))) =
           forgetErr (Inr (deleteQueueID e (m\<lparr>showDeleteDialog := False\<rparr>)))"
  proof -
    have c: "m\<lparr>err := x, showDeleteDialog := False\<rparr> = m\<lparr>showDeleteDialog := False, err := x\<rparr>"
      by simp
    show ?thesis unfolding c by (rule deleteQueueID_err_free)
  qed
  show ?thesis
  proof (cases "toLower k = ''y''")
    case y: True
    with True d show ?thesis by simp
  next
    case False
    with True show ?thesis by simp
  qed
next
  case nd: False
  show ?thesis
  proof (cases "k = ''q'' \<or> k = ''esc'' \<or> k = ''ctrl+c'' \<or> k = ''tab'' \<or> k = ''d''")
    case True
    with nd show ?thesis by auto
  next
    case nq: False
    show ?thesis
    proof (cases "showWarning m")
      case True
      with nd nq show ?thesis by simp
    next
      case nw: False
      have ne: "k \<noteq> ''q''" "k \<noteq> ''esc''" "k \<noteq> ''ctrl+c''" "k \<noteq> ''tab''" "k \<noteq> ''d''"
        using nq by auto
      have nd': "\<not> showDeleteDialog (m\<lparr>err := x\<rparr>)" and nw': "\<not> showWarning (m\<lparr>err := x\<rparr>)"
        using nd nw by simp_all
      have up: "forgetErr (fetchSelected (syncLeft e (m\<lparr>err := x, selected := selected m - 1\<rparr>))) =
                forgetErr (fetchSelected (syncLeft e (m\<lparr>selected := selected m - 1\<rparr>)))"
      proof -
        have c: "m\<lparr>err := x, selected := selected m - 1\<rparr> = m\<lparr>selected := selected m - 1, err := x\<rparr>"
          by simp
        show ?thesis unfolding c syncLeft_err by (rule fetchSelected_err)
      qed
      have down: "forgetErr (fetchSelected (syncLeft e (m\<lparr>err := x, selected := selected m + 1\<rparr>))) =
                forgetErr (fetchSelected (syncLeft e (m\<lparr>selected := selected m + 1\<rparr>)))"
      proof -
        have c: "m\<lparr>err := x, selected := selected m + 1\<rparr> = m\<lparr>selected := selected m + 1, err := x\<rparr>"
          by simp
        show ?thesis unfolding c syncLeft_err by (rule fetchSelected_err)
      qed
      show ?thesis
        unfolding Update_key_plain [OF nd nw ne, of e] Update_key_plain [OF nd' nw' ne, of e]
        using up down by simp
    qed
  qed
qed

lemma Update_err_free:
  "forgetErr (Update e (m\<lparr>err := x\<rparr>) msg) = forgetErr (Update e m msg)"
proof (cases msg)
  case (KeyMsg k)
  then show ?thesis by (simp only: Update_key_err_free)
next
  case (MailqIDsMsg ids)
  have "forgetErr (fetchSelected (a\<lparr>err := x\<rparr>)) = forgetErr (fetchSelected a)" for a
    by (rule fetchSelected_err)
  then show ?thesis unfolding MailqIDsMsg
    by (cases ids) (simp_all add: Let_def syncLeft_def fetchSelected_def index_def)
next
  case (WindowSizeMsg w h)
  then show ?thesis by (simp add: Let_def syncLeft_def syncWarningViewport_def)
next
  case (PostcatMsg s)
  then show ?thesis by (simp add: Let_def)
next
  case (ErrorMsg er)
  then show ?thesis by simp
next
  case OtherMsg
  then show ?thesis by simp
qed

lemma View_error: "err m = Some er \<Longrightarrow> View e m = errorScreen er"
  by (simp add: View_def)

text \<open>
  Claim C1, as the program has it. A failure of the listing or of the detail fetch
  arrives as an error message and a failure of the delete is met inside the key press:
  each sets the error field. No transition clears the field, so after any later run of
  messages the view is the error text between \<^verbatim>\<open>Error:\<close> and \<^verbatim>\<open>(q to quit)\<close> and
  nothing else. \<^verbatim>\<open>Update\<close> never reads the error field: whatever the field holds, a
  message is handled the same way, with the same command, the same external calls and
  the same new model but for the error field.
\<close>

theorem error_state_persists:
  "Update e m (ErrorMsg er) = Inr (m\<lparr>err := Some er\<rparr>, None, [])
   \<and> (showDeleteDialog m \<and> (k = ''y'' \<or> k = ''Y'') \<and> 0 \<le> selected m
        \<and> selected m < int (length (entries m))
        \<and> postsuper e (entries m ! nat (selected m)) = (out, Some er) \<longrightarrow>
        (\<exists>m'. Update e m (KeyMsg k) = Inr (m', None, [PostsuperDelete (entries m ! nat (selected m))])
              \<and> err m' = Some (deleteErrorText (entries m ! nat (selected m)) er out)))
   \<and> (err m \<noteq> None \<and> run m xs = Inr (m', outs) \<longrightarrow>
        (\<exists>er'. err m' = Some er' \<and> View e' m' = errorScreen er'))
   \<and> forgetErr (Update e (m\<lparr>err := x\<rparr>) msg) = forgetErr (Update e m msg)
   \<and> requests (Update e (m\<lparr>err := x\<rparr>) msg) = requests (Update e m msg)"
proof -
  have a: "Update e m (ErrorMsg er) = Inr (m\<lparr>err := Some er\<rparr>, None, [])" by simp
  have b: "\<exists>m'. Update e m (KeyMsg k) = Inr (m', None, [PostsuperDelete (entries m ! nat (selected m))])
              \<and> err m' = Some (deleteErrorText (entries m ! nat (selected m)) er out)"
    if "showDeleteDialog m" "k = ''y'' \<or> k = ''Y''" "0 \<le> selected m"
       "selected m < int (length (entries m))"
       "postsuper e (entries m ! nat (selected m)) = (out, Some er)"
    using that by (auto simp: toLower_names deleteQueueID_def Let_def)
  have c: "\<exists>er'. err m' = Some er' \<and> View e' m' = errorScreen er'"
    if "err m \<noteq> None" "run m xs = Inr (m', outs)"
  proof -
    from run_err [OF that(2) that(1)] obtain er' where "err m' = Some er'" by auto
    then show ?thesis using View_error by blast
  qed
  have d: "forgetErr (Update e (m\<lparr>err := x\<rparr>) msg) = forgetErr (Update e m msg)"
    by (rule Update_err_free)
  have f: "requests (Update e (m\<lparr>err := x\<rparr>) msg) = requests (Update e m msg)"
    using d by (rule requests_forgetErr)
  show ?thesis using a b c d f by blast
qed

theorem error_state_persists_witness:
  "run (twoEntries\<lparr>err := Some ''exit status 1''\<rparr>) [(envOk, KeyMsg ''tab'')] =
     Inr (twoEntries\<lparr>err := Some ''exit status 1'', focus := 1\<rparr>, [(None, [])])
   \<and> View envOk (twoEntries\<lparr>err := Some ''exit status 1'', focus := 1\<rparr>) =
       ''Error:'' @ [nl] @ ''exit status 1'' @ [nl] @ ''(q to quit)''"
proof -
  have r: "run (twoEntries\<lparr>err := Some ''exit status 1''\<rparr>) [(envOk, KeyMsg ''tab'')] =
     Inr (twoEntries\<lparr>err := Some ''exit status 1'', focus := 1\<rparr>, [(None, [])])"
    by (simp add: twoEntries_def)
  have "err (twoEntries\<lparr>err := Some ''exit status 1''\<rparr>) \<noteq> None" by simp
  with r error_state_persists [of envOk "twoEntries\<lparr>err := Some ''exit status 1''\<rparr>" "''boom''" "''y''"
      "[]" "[(envOk, KeyMsg ''tab'')]" "twoEntries\<lparr>err := Some ''exit status 1'', focus := 1\<rparr>"
      "[(None, [])]" envOk]
  have "\<exists>er'. err (twoEntries\<lparr>err := Some ''exit status 1'', focus := 1\<rparr>) = Some er'
         \<and> View envOk (twoEntries\<lparr>err := Some ''exit status 1'', focus := 1\<rparr>) = errorScreen er'"
    by blast
  then have "View envOk (twoEntries\<lparr>err := Some ''exit status 1'', focus := 1\<rparr>) =
      errorScreen ''exit status 1''"
    by simp
  with r show ?thesis by (simp add: errorScreen_def)
qed

text \<open>
  Against claim C1 as stated: after the failure of a detail fetch, the down key asks for
  another detail fetch, and the delete key followed by \<^verbatim>\<open>y\<close> runs \<^verbatim>\<open>postsuper -d\<close> and
  asks for a listing, all behind the error screen.
\<close>

theorem error_does_not_stop_requests:
  "run twoEntries [(envOk, ErrorMsg ''exit status 1''), (envOk, KeyMsg ''down''),
                   (envOk, KeyMsg ''d''), (envOk, KeyMsg ''y'')] =
   Inr (twoEntries\<lparr>selected := 1,
          left := \<lparr>Width = 14, Height = 19, YOffset = 0,
                   content = ''  AB12CD'' @ [nl] @ ''> ZZ99ZZ'' @ [nl]\<rparr>,
          leftRaw := ''  AB12CD'' @ [nl] @ ''> ZZ99ZZ'' @ [nl],
          err := Some ''exit status 1'', justDeleted := True\<rparr>,
        [(None, []), (Some (RunPostcatCmd ''ZZ99ZZ''), []), (None, []),
         (Some RunMailqCmd, [PostsuperDelete ''ZZ99ZZ''])])"
  by code_simp

subsection \<open>The listing result\<close>

text \<open>
  Claim C2, as the program has it. A listing replaces the entries, selects the first and
  leaves the suppression flag cleared. When the flag was set no command is returned.
  When it was not and the listing is not empty, the one command returned is the detail
  fetch of the first entry, and the detail pane holds the placeholder. When it was not
  and the listing is empty, no command is returned and the detail pane is left as it was.
\<close>

theorem listing_result:
  "\<exists>m'. Update e m (MailqIDsMsg ids) =
           Inr (m', (if \<not> justDeleted m \<and> ids \<noteq> [] then Some (RunPostcatCmd (hd ids)) else None), [])
        \<and> entries m' = ids \<and> selected m' = 0 \<and> \<not> justDeleted m'
        \<and> (if \<not> justDeleted m \<and> ids \<noteq> []
            then rightRaw m' = loadingText \<and> right m' = SetContent (right m) loadingText
            else rightRaw m' = rightRaw m \<and> right m' = right m)"
proof (cases "justDeleted m")
  case True
  then show ?thesis by (simp add: Let_def)
next
  case False
  show ?thesis
  proof (cases ids)
    case Nil
    with False show ?thesis by (simp add: Let_def)
  next
    case (Cons x xs)
    with False show ?thesis
      by (simp add: Let_def fetchSelected_def index_def)
  qed
qed

text \<open>
  Against claim C2 as stated: an empty listing, with the suppression flag not set,
  leaves the detail of the entry shown before in the detail pane.
\<close>

theorem empty_listing_keeps_detail:
  "Update envOk twoEntries (MailqIDsMsg []) =
     Inr (twoEntries\<lparr>entries := [], left := (left twoEntries)\<lparr>content := []\<rparr>, leftRaw := []\<rparr>,
          None, [])
   \<and> rightRaw (twoEntries\<lparr>entries := [], left := (left twoEntries)\<lparr>content := []\<rparr>, leftRaw := []\<rparr>)
       = ''*** ENVELOPE RECORDS ***''
   \<and> content (right (twoEntries\<lparr>entries := [], left := (left twoEntries)\<lparr>content := []\<rparr>, leftRaw := []\<rparr>))
       = ''*** ENVELOPE RECORDS ***''"
  by (simp add: twoEntries_def Let_def syncLeft_def SetContent_def)

text \<open>
  Such a listing does arrive: two deletes in a row ask for two listings, the first result
  clears the flag, and the second, empty, leaves the detail of a deleted message on the
  screen.
\<close>

lemma empty_listing_after_two_deletes:
  "run twoEntries
     [(envOk, KeyMsg ''d''), (envOk, KeyMsg ''y''), (envOk, KeyMsg ''down''),
      (envOk, KeyMsg ''d''), (envOk, KeyMsg ''y''),
      (envOk, PostcatMsg ''*** MESSAGE CONTENTS ***''),
      (envOk, MailqIDsMsg []), (envOk, MailqIDsMsg [])] =
   Inr (twoEntries\<lparr>entries := [], left := (left twoEntries)\<lparr>content := []\<rparr>, leftRaw := [],
          right := (right twoEntries)\<lparr>content := ''*** MESSAGE CONTENTS ***''\<rparr>,
          rightRaw := ''*** MESSAGE CONTENTS ***''\<rparr>,
        [(None, []), (Some RunMailqCmd, [PostsuperDelete ''AB12CD'']),
         (Some (RunPostcatCmd ''ZZ99ZZ''), []), (None, []),
         (Some RunMailqCmd, [PostsuperDelete ''ZZ99ZZ'']), (None, []), (None, []), (None, [])])"
  by code_simp

subsection \<open>The first-run warning\<close>

text \<open>With the warning shown and no dialog, the quit keys quit and every key but the
  quit keys, \<^verbatim>\<open>tab\<close> and \<^verbatim>\<open>d\<close> dismisses the warning and asks for the listing.\<close>

lemma warning_other_keys:
  "showWarning m \<Longrightarrow> \<not> showDeleteDialog m \<Longrightarrow>
   (k = ''q'' \<or> k = ''esc'' \<or> k = ''ctrl+c'' \<longrightarrow> Update e m (KeyMsg k) = Inr (m, Some Quit, []))
   \<and> (k \<notin> {''q'', ''esc'', ''ctrl+c'', ''tab'', ''d''} \<longrightarrow>
        Update e m (KeyMsg k) = Inr (m\<lparr>showWarning := False\<rparr>, Some RunMailqCmd, []))"
  by auto

text \<open>
  Claim C4 at its failing input. On the warning screen of the initial state the key
  \<^verbatim>\<open>tab\<close> toggles the focus and the key \<^verbatim>\<open>d\<close> opens the confirmation dialog; neither
  dismisses the warning, neither asks for the listing.
\<close>

theorem warning_tab_and_delete_keys:
  "Update envOk (initialModel True) (KeyMsg ''tab'') = Inr ((initialModel True)\<lparr>focus := 1\<rparr>, None, [])
   \<and> Update envOk (initialModel True) (KeyMsg ''d'') =
       Inr ((initialModel True)\<lparr>showDeleteDialog := True\<rparr>, None, [])
   \<and> showWarning ((initialModel True)\<lparr>focus := 1\<rparr>)
   \<and> showWarning ((initialModel True)\<lparr>showDeleteDialog := True\<rparr>)"
  by (simp add: initialModel_def)

subsection \<open>Navigation in the list pane\<close>

text \<open>What the four navigation keys do with the focus on the list, no dialog and no
  warning, from a selection inside the entries.\<close>

lemma list_navigation:
  assumes "\<not> showDeleteDialog m" "\<not> showWarning m" "focus m = 0"
    "0 \<le> selected m" "selected m < int (length (entries m))"
  shows "Update e m (KeyMsg ''up'') =
          (if selected m > 0
           then Inr (syncLeft e (m\<lparr>selected := selected m - 1\<rparr>),
                     Some (RunPostcatCmd (entries m ! nat (selected m - 1))), [])
           else Inr (m, None, []))"
    and "Update e m (KeyMsg ''down'') =
          (if selected m < int (length (entries m)) - 1
           then Inr (syncLeft e (m\<lparr>selected := selected m + 1\<rparr>),
                     Some (RunPostcatCmd (entries m ! nat (selected m + 1))), [])
           else Inr (m, None, []))"
    and "Update e m (KeyMsg ''pgup'') = Inr (m\<lparr>left := scrollHalfUp (left m) (leftRaw m)\<rparr>, None, [])"
    and "Update e m (KeyMsg ''pgdown'') = Inr (m\<lparr>left := scrollHalfDown (left m) (leftRaw m)\<rparr>, None, [])"
  using assms by (simp_all add: fetchSelected_in_range)

text \<open>
  Claim C5 at its failing input. With the first of two entries selected and its detail
  shown, the down key selects the second entry and asks for its detail, and the detail
  pane still holds the detail of the first entry: no placeholder is written.
\<close>

theorem navigation_without_placeholder:
  "Update envOk twoEntries (KeyMsg ''down'') =
     Inr (twoEntries\<lparr>selected := 1,
            left := (left twoEntries)\<lparr>content := ''  AB12CD'' @ [nl] @ ''> ZZ99ZZ'' @ [nl]\<rparr>,
            leftRaw := ''  AB12CD'' @ [nl] @ ''> ZZ99ZZ'' @ [nl]\<rparr>,
          Some (RunPostcatCmd ''ZZ99ZZ''), [])
   \<and> rightRaw twoEntries = ''*** ENVELOPE RECORDS ***''
   \<and> content (right twoEntries) = ''*** ENVELOPE RECORDS ***''"
  by (simp add: twoEntries_def envOk_def plainEnv_def syncLeft_def Let_def SetContent_def
      fetchSelected_def index_def)

subsection \<open>The keys of the confirmation dialog\<close>

text \<open>
  Claim C10, as the program has it. With the confirmation dialog shown no key returns
  the quit command; \<^verbatim>\<open>esc\<close> and \<^verbatim>\<open>ctrl+c\<close> hide the dialog and do nothing else; a key
  whose name in lower case is none of \<^verbatim>\<open>y\<close>, \<^verbatim>\<open>n\<close>, \<^verbatim>\<open>enter\<close>, \<^verbatim>\<open>esc\<close>,
  \<^verbatim>\<open>ctrl+c\<close> leaves the state as it is, dialog shown, with no command; \<^verbatim>\<open>q\<close> is such a
  key.
\<close>

theorem dialog_swallows_keys:
  assumes "showDeleteDialog m"
  shows "(\<forall>c g m'. Update e m (KeyMsg k) = Inr (m', c, g) \<longrightarrow> c \<noteq> Some Quit)
       \<and> (k = ''esc'' \<or> k = ''ctrl+c'' \<longrightarrow>
            Update e m (KeyMsg k) = Inr (m\<lparr>showDeleteDialog := False\<rparr>, None, []))
       \<and> (toLower k \<notin> {''y'', ''n'', ''enter'', ''esc'', ''ctrl+c''} \<longrightarrow>
            Update e m (KeyMsg k) = Inr (m, None, []))
       \<and> toLower ''q'' \<notin> {''y'', ''n'', ''enter'', ''esc'', ''ctrl+c''}"
proof -
  have q: "toLower ''q'' = ''q''" by code_simp
  have a: "c \<noteq> Some Quit" if "Update e m (KeyMsg k) = Inr (m', c, g)" for c g m'
    using that assms
    by (auto simp: deleteQueueID_def Let_def split: if_splits prod.splits option.splits)
  have b: "Update e m (KeyMsg k) = Inr (m\<lparr>showDeleteDialog := False\<rparr>, None, [])"
    if "k = ''esc'' \<or> k = ''ctrl+c''"
    using that assms by (auto simp: toLower_names)
  have c: "Update e m (KeyMsg k) = Inr (m, None, [])"
    if "toLower k \<notin> {''y'', ''n'', ''enter'', ''esc'', ''ctrl+c''}"
    using that assms by auto
  show ?thesis using a b c q by auto
qed

theorem dialog_swallows_keys_witness:
  "Update envOk (twoEntries\<lparr>showDeleteDialog := True\<rparr>) (KeyMsg ''q'') =
     Inr (twoEntries\<lparr>showDeleteDialog := True\<rparr>, None, [])
   \<and> Update envOk (twoEntries\<lparr>showDeleteDialog := True\<rparr>) (KeyMsg ''ctrl+c'') =
     Inr (twoEntries, None, [])"
  using dialog_swallows_keys [of "twoEntries\<lparr>showDeleteDialog := True\<rparr>" envOk "''q''"]
    dialog_swallows_keys [of "twoEntries\<lparr>showDeleteDialog := True\<rparr>" envOk "''ctrl+c''"]
  by (simp add: twoEntries_def)

text \<open>
  Against claim C10 as stated: a key message whose name is \<^verbatim>\<open>ENTER\<close> (the five letters
  arriving as one message) is outside the set the claim lists, and hides the dialog.
\<close>

theorem upper_case_enter_hides_dialog:
  "Update envOk (twoEntries\<lparr>showDeleteDialog := True\<rparr>) (KeyMsg ''ENTER'') = Inr (twoEntries, None, [])
   \<and> ''ENTER'' \<notin> {''y'', ''Y'', ''n'', ''N'', ''enter'', ''esc'', ''ctrl+c''}"
proof -
  have "toLower ''ENTER'' = ''enter''" by code_simp
  then show ?thesis by (simp add: twoEntries_def)
qed

subsection \<open>Half-page scrolling\<close>

lemma sdiv_two_pos: "0 < h \<Longrightarrow> (h::int) sdiv 2 = h div 2"
  by (simp add: signed_divide_int_def)

text \<open>
  Claim C7. For a pane of positive height that holds the text \<^verbatim>\<open>rawText\<close>, with an
  offset between \<open>0\<close> and \<open>maxYOffset\<close> (which is \<open>max 0 (totalLines - Height)\<close>):
  \<^verbatim>\<open>scrollHalfDown\<close> changes the offset only, to \<open>maxYOffset\<close> when less than half a
  page is left below and to the offset plus half the height otherwise, never past
  \<open>maxYOffset\<close>; \<^verbatim>\<open>scrollHalfUp\<close> changes the offset only, to \<open>0\<close> when the offset is
  less than half the height and to the offset minus half the height otherwise, never
  below \<open>0\<close>. Half the height is the integer quotient.
\<close>

theorem half_page_scroll:
  assumes "Height v > 0" and "content v = rawText"
    and "0 \<le> YOffset v" and "YOffset v \<le> maxYOffset v"
  shows "scrollHalfDown v rawText =
           v\<lparr>YOffset := (if maxYOffset v - YOffset v < Height v sdiv 2 then maxYOffset v
                           else YOffset v + Height v sdiv 2)\<rparr>
         \<and> YOffset (scrollHalfDown v rawText) \<le> maxYOffset v
         \<and> scrollHalfUp v rawText =
           v\<lparr>YOffset := (if YOffset v < Height v sdiv 2 then 0
                           else YOffset v - Height v sdiv 2)\<rparr>
         \<and> 0 \<le> YOffset (scrollHalfUp v rawText)
         \<and> Height v sdiv 2 = Height v div 2"
proof -
  let ?h = "Height v sdiv 2"
  have h: "?h = Height v div 2" "0 \<le> ?h"
    using assms(1) by (simp_all add: sdiv_two_pos)
  have tl: "countNL rawText + 1 = totalLines v"
    using assms(2) by (simp add: totalLines_def)
  have d: "scrollHalfDown v rawText =
           v\<lparr>YOffset := (if maxYOffset v - YOffset v < ?h then maxYOffset v else YOffset v + ?h)\<rparr>"
    using assms h(2)
    unfolding scrollHalfDown_def Let_def tl GotoBottom_def LineDown_def clamp_def maxYOffset_def
    by (auto simp: max_def min_def)
  have u: "scrollHalfUp v rawText =
           v\<lparr>YOffset := (if YOffset v < ?h then 0 else YOffset v - ?h)\<rparr>"
    using assms h(2)
    unfolding scrollHalfUp_def Let_def GotoTop_def LineUp_def clamp_def maxYOffset_def
    by (auto simp: max_def min_def)
  have d2: "YOffset (scrollHalfDown v rawText) \<le> maxYOffset v"
    unfolding d using assms h(2) by auto
  have u2: "0 \<le> YOffset (scrollHalfUp v rawText)"
    unfolding u using assms h(2) by auto
  show ?thesis using d u d2 u2 h(1) by blast
qed

theorem half_page_scroll_witness:
  "maxYOffset longPane = 4
   \<and> YOffset (scrollHalfDown longPane (content longPane)) = 3
   \<and> YOffset (scrollHalfUp longPane (content longPane)) = 0"
  using half_page_scroll [of longPane "content longPane"]
  by (simp add: longPane_def maxYOffset_def totalLines_def countNL_def nl_def)

subsection \<open>The overlay\<close>

lemma splitNL_nonempty [simp]: "splitNL s \<noteq> []"
  by (induction s) (auto split: list.splits)

lemma splitNL_Cons:
  "splitNL (c # cs) = (if c = nl then [] # splitNL cs else (c # hd (splitNL cs)) # tl (splitNL cs))"
  by (cases "splitNL cs") auto

lemma splitNL_no_nl: "l \<in> set (splitNL s) \<Longrightarrow> nl \<notin> set l"
proof (induction s arbitrary: l)
  case Nil
  then show ?case by simp
next
  case (Cons c cs)
  obtain x xs where x: "splitNL cs = x # xs" by (cases "splitNL cs") auto
  with Cons show ?case by (auto split: if_splits)
qed

lemma joinNL_Cons_Cons: "joinNL ((c # l) # ls) = c # joinNL (l # ls)"
  by (cases ls) auto

lemma joinNL_Cons_nonempty: "ls \<noteq> [] \<Longrightarrow> joinNL (l # ls) = l @ nl # joinNL ls"
  by (cases ls) auto

lemma joinNL_splitNL: "joinNL (splitNL s) = s"
proof (induction s)
  case Nil
  then show ?case by simp
next
  case (Cons c cs)
  obtain x xs where x: "splitNL cs = x # xs" by (cases "splitNL cs") auto
  with Cons show ?case by (auto simp: joinNL_Cons_Cons)
qed

lemma splitNL_line: "nl \<notin> set x \<Longrightarrow> splitNL x = [x]"
  by (induction x) auto

lemma splitNL_append_nl: "nl \<notin> set x \<Longrightarrow> splitNL (x @ nl # r) = x # splitNL r"
  by (induction x) auto

lemma splitNL_joinNL:
  "ls \<noteq> [] \<Longrightarrow> \<forall>l\<in>set ls. nl \<notin> set l \<Longrightarrow> splitNL (joinNL ls) = ls"
proof (induction ls rule: joinNL.induct)
  case 1
  then show ?case by simp
next
  case (2 x)
  then show ?case by (simp add: splitNL_line)
next
  case (3 x y ys)
  then show ?case by (simp add: splitNL_append_nl)
qed

lemma padTo_same: "padTo s (len s) = s"
  by (simp add: padTo_def)

lemma overlayLine_same_length:
  assumes "length b = length f"
  shows "overlayLine b f = map (\<lambda>j. if f ! j = sp then b ! j else f ! j) [0..<length b]"
  using assms by (simp add: overlayLine_def maxInt_def padTo_def len_def Let_def)

lemma overlayLine_cells:
  assumes "length b = length f"
  shows "length (overlayLine b f) = length b"
    and "j < length b \<Longrightarrow> overlayLine b f ! j = (if f ! j = sp then b ! j else f ! j)"
  using assms by (simp_all add: overlayLine_same_length)

lemma overlayLine_blank:
  assumes "length b = length f" and "\<forall>c\<in>set f. c = sp"
  shows "overlayLine b f = b"
proof (rule nth_equalityI)
  show "length (overlayLine b f) = length b" using assms(1) by (rule overlayLine_cells)
next
  fix j assume "j < length (overlayLine b f)"
  then have j: "j < length b" using assms(1) by (simp add: overlayLine_cells)
  then have "f ! j = sp" using assms by simp
  with j assms(1) show "overlayLine b f ! j = b ! j" by (simp add: overlayLine_cells)
qed

lemma overlayLine_no_nl:
  assumes "length b = length f" "nl \<notin> set b" "nl \<notin> set f"
  shows "nl \<notin> set (overlayLine b f)"
proof
  assume "nl \<in> set (overlayLine b f)"
  then obtain j where j: "j < length (overlayLine b f)" "overlayLine b f ! j = nl"
    by (auto simp: in_set_conv_nth)
  then have jb: "j < length b" using assms(1) by (simp add: overlayLine_cells)
  with j(2) assms(1) have "b ! j = nl \<or> f ! j = nl"
    by (auto simp: overlayLine_cells split: if_splits)
  with jb assms show False by (metis nth_mem)
qed

lemma overlayStrings_same_height:
  assumes "length (splitNL bg) = length (splitNL fg)"
  shows "overlayStrings bg fg =
         joinNL (map (\<lambda>i. overlayLine (splitNL bg ! i) (splitNL fg ! i)) [0..<length (splitNL bg)])"
  using assms by (simp add: overlayStrings_def Let_def maxInt_def padLines_def len_def)

lemma overlayStrings_lines:
  assumes "list_all2 (\<lambda>b f. length b = length f) (splitNL bg) (splitNL fg)"
  shows "splitNL (overlayStrings bg fg) =
         map (\<lambda>i. overlayLine (splitNL bg ! i) (splitNL fg ! i)) [0..<length (splitNL bg)]"
proof -
  let ?B = "splitNL bg" and ?F = "splitNL fg"
  let ?M = "map (\<lambda>i. overlayLine (?B ! i) (?F ! i)) [0..<length ?B]"
  have h: "length ?B = length ?F" using assms by (rule list_all2_lengthD)
  have w: "length (?B ! i) = length (?F ! i)" if "i < length ?B" for i
    using assms that by (simp add: list_all2_conv_all_nth)
  have "nl \<notin> set l" if "l \<in> set ?M" for l
  proof -
    from that obtain i where i: "i < length ?B" "l = overlayLine (?B ! i) (?F ! i)" by auto
    have "?B ! i \<in> set ?B" "?F ! i \<in> set ?F"
      using i(1) h by simp_all
    then have "nl \<notin> set (?B ! i)" "nl \<notin> set (?F ! i)"
      by (simp_all add: splitNL_no_nl)
    with w [OF i(1)] i(2) show ?thesis by (simp add: overlayLine_no_nl)
  qed
  moreover have "?M \<noteq> []" by simp
  ultimately have "splitNL (joinNL ?M) = ?M" by (intro splitNL_joinNL) auto
  then show ?thesis by (simp add: overlayStrings_same_height [OF h])
qed

lemma splitNL_subset: "l \<in> set (splitNL s) \<Longrightarrow> set l \<subseteq> set s"
proof (induction s arbitrary: l)
  case Nil
  then show ?case by simp
next
  case (Cons c cs)
  obtain x xs where x: "splitNL cs = x # xs" by (cases "splitNL cs") auto
  then have "set x \<subseteq> set cs" using Cons.IH [of x] by simp
  moreover have "set y \<subseteq> set cs" if "y \<in> set xs" for y
    using Cons.IH [of y] x that by simp
  ultimately show ?case using Cons.prems x by (auto split: if_splits)
qed

lemma blank_lines:
  assumes "\<forall>c\<in>set fg. c = sp \<or> c = nl" and "l \<in> set (splitNL fg)"
  shows "\<forall>c\<in>set l. c = sp"
proof
  fix c assume c: "c \<in> set l"
  with splitNL_subset [OF assms(2)] assms(1) have "c = sp \<or> c = nl" by auto
  moreover have "c \<noteq> nl" using splitNL_no_nl [OF assms(2)] c by auto
  ultimately show "c = sp" by simp
qed

text \<open>
  Claim C8. For two grids of equal size (as many lines, and line by line as many bytes)
  the overlay has that size, and each of its cells is the cell of the foreground when that
  one is not a space and the cell of the background when it is; so a foreground of
  spaces only gives the background back.
\<close>

theorem overlay_cells:
  assumes "list_all2 (\<lambda>b f. length b = length f) (splitNL bg) (splitNL fg)"
  shows "length (splitNL (overlayStrings bg fg)) = length (splitNL bg)
       \<and> (\<forall>i < length (splitNL bg).
            length (splitNL (overlayStrings bg fg) ! i) = length (splitNL bg ! i)
            \<and> (\<forall>j < length (splitNL bg ! i).
                 splitNL (overlayStrings bg fg) ! i ! j =
                   (if splitNL fg ! i ! j = sp then splitNL bg ! i ! j else splitNL fg ! i ! j)))
       \<and> ((\<forall>c\<in>set fg. c = sp \<or> c = nl) \<longrightarrow> overlayStrings bg fg = bg)"
proof -
  let ?B = "splitNL bg" and ?F = "splitNL fg"
  note L = overlayStrings_lines [OF assms]
  have h: "length ?B = length ?F" using assms by (rule list_all2_lengthD)
  have w: "length (?B ! i) = length (?F ! i)" if "i < length ?B" for i
    using assms that by (simp add: list_all2_conv_all_nth)
  have a: "length (splitNL (overlayStrings bg fg)) = length ?B" by (simp add: L)
  have b: "length (splitNL (overlayStrings bg fg) ! i) = length (?B ! i)
           \<and> (\<forall>j < length (?B ! i). splitNL (overlayStrings bg fg) ! i ! j =
                   (if ?F ! i ! j = sp then ?B ! i ! j else ?F ! i ! j))"
    if i: "i < length ?B" for i
    using i w [OF i] by (simp add: L overlayLine_cells)
  have c: "overlayStrings bg fg = bg" if blank: "\<forall>c\<in>set fg. c = sp \<or> c = nl"
  proof -
    have "map (\<lambda>i. overlayLine (?B ! i) (?F ! i)) [0..<length ?B] = ?B"
    proof (rule nth_equalityI)
      show "length (map (\<lambda>i. overlayLine (?B ! i) (?F ! i)) [0..<length ?B]) = length ?B" by simp
    next
      fix i assume "i < length (map (\<lambda>i. overlayLine (?B ! i) (?F ! i)) [0..<length ?B])"
      then have i: "i < length ?B" by simp
      have "\<forall>c\<in>set (?F ! i). c = sp"
        using blank_lines [OF blank, of "?F ! i"] i h by simp
      with w [OF i] have "overlayLine (?B ! i) (?F ! i) = ?B ! i" by (rule overlayLine_blank)
      with i show "map (\<lambda>i. overlayLine (?B ! i) (?F ! i)) [0..<length ?B] ! i = ?B ! i" by simp
    qed
    then show ?thesis by (simp add: overlayStrings_same_height [OF h] joinNL_splitNL)
  qed
  show ?thesis using a b c by blast
qed

theorem overlay_cells_witness:
  "overlayStrings bgGrid fgGrid = ''aXYc'' @ [nl] @ ''defg''
   \<and> overlayStrings bgGrid blankGrid = bgGrid"
proof -
  have s: "splitNL bgGrid = [''ab c'', ''defg'']" "splitNL blankGrid = [''    '', ''    '']"
    by (simp_all add: bgGrid_def blankGrid_def nl_def)
  have "overlayStrings bgGrid blankGrid = bgGrid"
    using overlay_cells [of bgGrid blankGrid] by (simp add: s) (simp add: blankGrid_def sp_def)
  moreover have "overlayStrings bgGrid fgGrid = ''aXYc'' @ [nl] @ ''defg''"
    by code_simp
  ultimately show ?thesis by simp
qed

subsection \<open>White space and fields\<close>

lemma spaceRunes_shape_all:
  "list_all (\<lambda>p. p \<noteq> [] \<and> \<not> contByte (hd p) \<and> list_all contByte (tl p)) spaceRunes"
  by code_simp

lemma spaceRunes_shape:
  "p \<in> set spaceRunes \<Longrightarrow> p \<noteq> [] \<and> \<not> contByte (hd p) \<and> (\<forall>c\<in>set (tl p). contByte c)"
  using spaceRunes_shape_all by (auto simp: list_all_iff)

lemma spaceRunes_prefix_free_all:
  "list_all (\<lambda>p. list_all (\<lambda>q. \<not> prefix p q \<or> p = q) spaceRunes) spaceRunes"
  by code_simp

lemma spaceRunes_prefix_free:
  "p \<in> set spaceRunes \<Longrightarrow> q \<in> set spaceRunes \<Longrightarrow> prefix p q \<Longrightarrow> p = q"
  using spaceRunes_prefix_free_all by (auto simp: list_all_iff)

lemma find_spaceRunes:
  assumes "p \<in> set spaceRunes" "prefix p s"
  shows "find (\<lambda>q. prefix q s) spaceRunes = Some p"
proof -
  from assms obtain q where q: "find (\<lambda>q. prefix q s) spaceRunes = Some q"
    by (cases "find (\<lambda>q. prefix q s) spaceRunes") (auto simp: find_None_iff)
  then have "q \<in> set spaceRunes" "prefix q s"
    by (auto simp: find_Some_iff)
  with assms have "prefix p q \<or> prefix q p"
    using prefix_same_cases by blast
  with \<open>q \<in> set spaceRunes\<close> assms(1) have "p = q"
    using spaceRunes_prefix_free by blast
  with q show ?thesis by simp
qed

lemma spaceWidth_prefix:
  "p \<in> set spaceRunes \<Longrightarrow> prefix p s \<Longrightarrow> spaceWidth s = length p"
  by (simp add: spaceWidth_def find_spaceRunes)

lemma spaceWidth_self: "p \<in> set spaceRunes \<Longrightarrow> spaceWidth p = length p"
  by (simp add: spaceWidth_prefix)

lemma spaceWidth_nonzero:
  assumes "spaceWidth s \<noteq> 0"
  shows "\<exists>p\<in>set spaceRunes. prefix p s \<and> spaceWidth s = length p"
proof -
  from assms obtain p where p: "find (\<lambda>q. prefix q s) spaceRunes = Some p"
    by (cases "find (\<lambda>q. prefix q s) spaceRunes") (auto simp: spaceWidth_def)
  then have "p \<in> set spaceRunes" "prefix p s"
    by (auto simp: find_Some_iff)
  moreover from p have "spaceWidth s = length p"
    by (simp add: spaceWidth_def)
  ultimately show ?thesis by blast
qed

lemma spaceWidth_zero: "spaceWidth s = 0 \<longleftrightarrow> (\<forall>p\<in>set spaceRunes. \<not> prefix p s)"
proof
  assume "spaceWidth s = 0"
  show "\<forall>p\<in>set spaceRunes. \<not> prefix p s"
  proof (intro ballI notI)
    fix p assume p: "p \<in> set spaceRunes" "prefix p s"
    then have "spaceWidth s = length p" by (rule spaceWidth_prefix)
    with \<open>spaceWidth s = 0\<close> spaceRunes_shape [OF p(1)] show False by simp
  qed
next
  assume "\<forall>p\<in>set spaceRunes. \<not> prefix p s"
  then show "spaceWidth s = 0"
    using spaceWidth_nonzero by blast
qed

lemma spaceWidth_le: "spaceWidth s \<le> length s"
proof (cases "spaceWidth s = 0")
  case False
  from spaceWidth_nonzero [OF this] show ?thesis
    by (auto dest: prefix_length_le)
qed simp

lemma spaceWidth_Nil [simp]: "spaceWidth [] = 0"
  using spaceWidth_le [of "[]"] by simp

lemma prefix_append_rune:
  assumes "w \<noteq> []" "P \<in> set spaceRunes" "p \<in> set spaceRunes"
  shows "prefix p (w @ P) \<longleftrightarrow> prefix p w"
proof
  assume "prefix p (w @ P)"
  then have "prefix p w \<or> (\<exists>us. p = w @ us \<and> prefix us P)"
    by (simp add: prefix_append)
  then consider "prefix p w" | us where "p = w @ us" "prefix us P" "us \<noteq> []"
    by (metis append_Nil2 prefix_order.order_refl)
  then show "prefix p w"
  proof cases
    case 1
    then show ?thesis .
  next
    case 2
    from 2(2,3) spaceRunes_shape [OF assms(2)] have "hd us = hd P"
      by (cases us; cases P) auto
    with spaceRunes_shape [OF assms(2)] have "\<not> contByte (hd us)" by simp
    moreover from 2(1,3) assms(1) have "hd us \<in> set (tl p)"
      by (cases w; cases us) auto
    ultimately show ?thesis using spaceRunes_shape [OF assms(3)] by blast
  qed
next
  assume "prefix p w"
  then show "prefix p (w @ P)" by (rule prefix_prefix)
qed

lemma spaceWidth_append_rune:
  assumes "w \<noteq> []" "P \<in> set spaceRunes"
  shows "spaceWidth (w @ P) = spaceWidth w"
proof -
  have "find (\<lambda>p. prefix p (w @ P)) spaceRunes = find (\<lambda>p. prefix p w) spaceRunes"
    using prefix_append_rune [OF assms] by (intro find_cong) auto
  then show ?thesis by (simp add: spaceWidth_def)
qed


lemma spaceWidth_Cons_le: "spaceWidth (c # cs) - 1 \<le> length cs"
  using spaceWidth_le [of "c # cs"] by simp

lemma fieldsFrom_rune:
  assumes "P \<in> set spaceRunes"
  shows "fieldsFrom cur P = fieldsFrom cur []"
proof -
  from spaceRunes_shape [OF assms] obtain c cs where P: "P = c # cs" by (cases P) auto
  have w: "spaceWidth (c # cs) = Suc (length cs)"
    using spaceWidth_self [OF assms] P by simp
  show ?thesis unfolding P by (simp add: w)
qed

lemma fieldsFrom_append_rune:
  assumes "P \<in> set spaceRunes"
  shows "fieldsFrom cur (v @ P) = fieldsFrom cur v"
proof (induction cur v rule: fieldsFrom.induct)
  case (1 cur)
  show ?case using fieldsFrom_rune [OF assms] by simp
next
  case (2 cur c cs)
  have w: "spaceWidth ((c # cs) @ P) = spaceWidth (c # cs)"
    using assms by (intro spaceWidth_append_rune) simp_all
  show ?case
  proof (cases "spaceWidth (c # cs) = 0")
    case True
    with w 2 show ?thesis by simp
  next
    case False
    have "drop (spaceWidth (c # cs) - 1) (cs @ P) = drop (spaceWidth (c # cs) - 1) cs @ P"
      using spaceWidth_Cons_le [of c cs] by simp
    with w False 2 show ?thesis by simp
  qed
qed

lemma Fields_append_rune: "P \<in> set spaceRunes \<Longrightarrow> Fields (v @ P) = Fields v"
  by (simp add: Fields_def fieldsFrom_append_rune)

lemma Fields_trimLeft: "Fields (trimLeft s) = Fields s"
  unfolding Fields_def
  by (induction s rule: trimLeft.induct) simp_all

lemma spaceWidthLast_nonzero:
  assumes "spaceWidthLast s \<noteq> 0"
  shows "\<exists>P\<in>set spaceRunes. s = take (length s - spaceWidthLast s) s @ P"
proof -
  from assms obtain P where P: "find (\<lambda>q. suffix q s) spaceRunes = Some P"
    by (cases "find (\<lambda>q. suffix q s) spaceRunes") (auto simp: spaceWidthLast_def)
  then have m: "P \<in> set spaceRunes" and "suffix P s"
    by (auto simp: find_Some_iff)
  then obtain v where v: "s = v @ P" by (auto simp: suffix_def)
  from P have "spaceWidthLast s = length P" by (simp add: spaceWidthLast_def)
  with v have "take (length s - spaceWidthLast s) s = v" by simp
  with v m show ?thesis by auto
qed

lemma Fields_trimRight: "Fields (trimRight s) = Fields s"
proof (induction s rule: trimRight.induct)
  case (1 s)
  show ?case
  proof (cases "s = [] \<or> spaceWidthLast s = 0")
    case True
    then show ?thesis by (subst trimRight.simps) simp
  next
    case False
    then obtain P where P: "P \<in> set spaceRunes" "s = take (length s - spaceWidthLast s) s @ P"
      using spaceWidthLast_nonzero by blast
    have "Fields (trimRight s) = Fields (take (length s - spaceWidthLast s) s)"
      using False 1 by (subst trimRight.simps) simp
    also have "\<dots> = Fields (take (length s - spaceWidthLast s) s @ P)"
      using P(1) by (simp add: Fields_append_rune)
    also have "\<dots> = Fields s" using P(2) by simp
    finally show ?thesis .
  qed
qed

lemma Fields_TrimSpace: "Fields (TrimSpace s) = Fields s"
  by (simp add: TrimSpace_def Fields_trimRight Fields_trimLeft)

lemma CR_rune: "[CHR 0x0D] \<in> set spaceRunes"
  by (simp add: spaceRunes_def)

lemma Fields_dropCR: "Fields (dropCR l) = Fields l"
proof (cases "l \<noteq> [] \<and> last l = CHR 0x0D")
  case True
  then have "l = butlast l @ [CHR 0x0D]" by (metis append_butlast_last_id)
  then have "Fields l = Fields (butlast l)"
    using Fields_append_rune [OF CR_rune, of "butlast l"] by simp
  with True show ?thesis by (simp add: dropCR_def)
next
  case False
  then show ?thesis by (auto simp: dropCR_def)
qed

lemma fieldsFrom_cur:
  "cur \<noteq> [] \<Longrightarrow> \<exists>rest. fieldsFrom cur s = (cur @ upToSpace s) # rest"
  by (induction cur s rule: fieldsFrom.induct) auto

lemma trimLeft_spaceWidth: "spaceWidth (trimLeft s) = 0"
  by (induction s rule: trimLeft.induct) simp_all

lemma Fields_first:
  "(trimLeft s = [] \<longrightarrow> Fields s = [])
   \<and> (trimLeft s \<noteq> [] \<longrightarrow> (\<exists>rest. Fields s = upToSpace (trimLeft s) # rest))"
  unfolding Fields_def
proof (induction s rule: trimLeft.induct)
  case 1
  then show ?case by simp
next
  case (2 c cs)
  show ?case
  proof (cases "spaceWidth (c # cs) = 0")
    case True
    then show ?thesis using fieldsFrom_cur [of "[c]" cs] by simp
  next
    case False
    with 2 show ?thesis by simp
  qed
qed

lemma upToSpace_nonempty: "t \<noteq> [] \<Longrightarrow> spaceWidth t = 0 \<Longrightarrow> upToSpace t \<noteq> []"
  by (cases t) auto

lemma firstField_blank: "firstField l = [] \<longleftrightarrow> blank l"
  using upToSpace_nonempty [of "trimLeft l"] trimLeft_spaceWidth [of l]
  by (auto simp: firstField_def blank_def)

lemma TrimSpace_empty_blank: "TrimSpace t = [] \<Longrightarrow> blank t"
proof -
  assume "TrimSpace t = []"
  then have "Fields (TrimSpace t) = []" by (simp add: Fields_def)
  then have "Fields t = []" by (simp add: Fields_TrimSpace)
  then show "blank t" using Fields_first [of t] by (auto simp: blank_def)
qed

lemma parseLoop_step:
  "parseLoop ids (t # ts) = parseLoop (ids @ lineIds t) ts"
proof (cases "blank t")
  case True
  then have "Fields (TrimSpace t) = []"
    using Fields_first [of t] by (simp add: Fields_TrimSpace blank_def)
  with True show ?thesis by (simp add: lineIds_def Let_def)
next
  case False
  then obtain rest where r: "Fields (TrimSpace t) = firstField t # rest"
    using Fields_first [of t] by (auto simp: Fields_TrimSpace blank_def firstField_def)
  from False have "TrimSpace t \<noteq> []" using TrimSpace_empty_blank by blast
  with r False show ?thesis by (simp add: lineIds_def Let_def)
qed

lemma parseLoop_concat: "parseLoop ids ts = ids @ concat (map lineIds ts)"
proof (induction ts arbitrary: ids)
  case Nil
  then show ?case by simp
next
  case (Cons t ts)
  show ?case unfolding parseLoop_step by (simp add: Cons.IH)
qed

lemma lineIds_dropCR: "lineIds (dropCR l) = lineIds l"
proof -
  have "trimLeft (dropCR l) = [] \<longleftrightarrow> trimLeft l = []"
    using Fields_first [of l] Fields_first [of "dropCR l"] by (auto simp: Fields_dropCR)
  moreover have "upToSpace (trimLeft (dropCR l)) = upToSpace (trimLeft l)" if "trimLeft l \<noteq> []"
    using Fields_first [of l] Fields_first [of "dropCR l"] that calculation
    by (auto simp: Fields_dropCR)
  ultimately show ?thesis
    by (auto simp: lineIds_def blank_def firstField_def)
qed

lemma lineIds_Nil [simp]: "lineIds [] = []"
  by (simp add: lineIds_def blank_def)


lemma alnum_byte:
  "\<forall>r. ((byte r < byte CHR ''0'' \<or> byte r > byte CHR ''9'') \<and>
         (byte r < byte CHR ''A'' \<or> byte r > byte CHR ''Z'') \<and>
         (byte r < byte CHR ''a'' \<or> byte r > byte CHR ''z'')) = (r \<notin> set alnumChars)"
  by code_simp

lemma alnumRunes_iff: "alnumRunes s \<longleftrightarrow> list_all (\<lambda>c. c \<in> set alnumChars) s"
proof (induction s)
  case Nil
  then show ?case by simp
next
  case (Cons r rs)
  then show ?case using alnum_byte by (simp del: set_simps)
qed

lemma looksLikeQueueID_iff: "looksLikeQueueID f \<longleftrightarrow> idShaped f"
  by (auto simp: looksLikeQueueID_def idShaped_def len_def alnumRunes_iff)

lemma concat_lineIds: "concat (map lineIds ls) = idsOfLines ls"
proof (induction ls)
  case Nil
  then show ?case by (simp add: idsOfLines_def)
next
  case (Cons l ls)
  then show ?case
    by (simp add: idsOfLines_def lineIds_def looksLikeQueueID_iff)
qed

lemma scanLines_Cons:
  "s \<noteq> [] \<Longrightarrow> scanLines s =
     (if length (takeWhile (\<lambda>x. x \<noteq> nl) s) \<ge> maxScanTokenSize then []
      else dropCR (takeWhile (\<lambda>x. x \<noteq> nl) s) # scanLines (tl (dropWhile (\<lambda>x. x \<noteq> nl) s)))"
  by (cases s) (simp_all add: Let_def)

lemma splitNL_takeWhile:
  "splitNL s = takeWhile (\<lambda>x. x \<noteq> nl) s #
     (case dropWhile (\<lambda>x. x \<noteq> nl) s of [] \<Rightarrow> [] | _ # r \<Rightarrow> splitNL r)"
proof (induction s)
  case Nil
  then show ?case by simp
next
  case (Cons c cs)
  then show ?case by (cases "splitNL cs") auto
qed

lemma scanLines_lineIds:
  "concat (map lineIds (scanLines s)) =
   concat (map lineIds (takeWhile (\<lambda>l. length l < maxScanTokenSize) (splitNL s)))"
proof (induction s rule: scanLines.induct)
  case 1
  then show ?case by (simp add: maxScanTokenSize_def)
next
  case (2 c cs)
  let ?s = "c # cs"
  let ?line = "takeWhile (\<lambda>x. x \<noteq> nl) ?s"
  let ?rest = "dropWhile (\<lambda>x. x \<noteq> nl) ?s"
  show ?case
  proof (cases "length ?line \<ge> maxScanTokenSize")
    case True
    have "scanLines ?s = []"
      using True by (subst scanLines_Cons) simp_all
    moreover have "takeWhile (\<lambda>l. length l < maxScanTokenSize) (splitNL ?s) = []"
      using True by (subst splitNL_takeWhile) simp
    ultimately show ?thesis by simp
  next
    case False
    have sc: "scanLines ?s = dropCR ?line # scanLines (tl ?rest)"
      using False by (subst scanLines_Cons) simp_all
    have IH: "concat (map lineIds (scanLines (tl ?rest))) =
        concat (map lineIds (takeWhile (\<lambda>l. length l < maxScanTokenSize) (splitNL (tl ?rest))))"
      using 2 [OF refl refl] False by simp
    show ?thesis
    proof (cases ?rest)
      case Nil
      then have "splitNL ?s = [?line]"
        by (subst splitNL_takeWhile) simp
      with sc Nil False show ?thesis
        by (simp add: lineIds_dropCR not_le)
    next
      case (Cons r0 r)
      then have "splitNL ?s = ?line # splitNL r"
        by (subst splitNL_takeWhile) simp
      with sc Cons False IH show ?thesis
        by (simp add: lineIds_dropCR not_le)
    qed
  qed
qed

subsection \<open>The parser\<close>

lemma parseMailqForIDs_lines:
  "parseMailqForIDs out = idsOfLines (takeWhile (\<lambda>l. length l < maxScanTokenSize) (splitNL out))"
proof -
  have "parseMailqForIDs out = concat (map lineIds (scanLines out))"
    by (simp add: parseMailqForIDs_def parseLoop_concat)
  also have "\<dots> = concat (map lineIds (takeWhile (\<lambda>l. length l < maxScanTokenSize) (splitNL out)))"
    by (rule scanLines_lineIds)
  also have "\<dots> = idsOfLines (takeWhile (\<lambda>l. length l < maxScanTokenSize) (splitNL out))"
    by (rule concat_lineIds)
  finally show ?thesis .
qed

lemma idsOfLines_shaped: "x \<in> set (idsOfLines ls) \<Longrightarrow> idShaped x"
  by (simp add: idsOfLines_def)

lemma spaceWidth_x: "spaceWidth (CHR ''x'' # t) = 0"
  unfolding spaceWidth_zero by (simp add: spaceRunes_def)

lemma upToSpace_x: "upToSpace (replicate n (CHR ''x'')) = replicate n (CHR ''x'')"
  by (induction n) (simp_all add: spaceWidth_x)

lemma firstField_x: "firstField (replicate (Suc n) (CHR ''x'')) = replicate (Suc n) (CHR ''x'')"
proof -
  have "trimLeft (replicate (Suc n) (CHR ''x'')) = replicate (Suc n) (CHR ''x'')"
    by (simp add: spaceWidth_x)
  then show ?thesis
    unfolding firstField_def by (simp only: upToSpace_x)
qed

lemma replicate_line:
  assumes "x \<noteq> nl"
  shows "takeWhile (\<lambda>x. x \<noteq> nl) (replicate n x @ nl # r) = replicate n x"
    and "dropWhile (\<lambda>x. x \<noteq> nl) (replicate n x @ nl # r) = nl # r"
  using assms by (induction n) simp_all

lemma maxScanTokenSize_Suc: "maxScanTokenSize = Suc (maxScanTokenSize - 1)"
  by (simp add: maxScanTokenSize_def)

lemma longLine_props:
  "length longLine = maxScanTokenSize" "takeWhile (\<lambda>x. x \<noteq> nl) (longLine @ nl # r) = longLine"
  "dropWhile (\<lambda>x. x \<noteq> nl) (longLine @ nl # r) = nl # r" "longLine \<noteq> []"
  "firstField longLine = longLine"
proof -
  have x: "CHR ''x'' \<noteq> nl" by (simp add: nl_def)
  show l: "length longLine = maxScanTokenSize" by (simp add: longLine_def)
  show "takeWhile (\<lambda>x. x \<noteq> nl) (longLine @ nl # r) = longLine"
    unfolding longLine_def by (rule replicate_line [OF x])
  show "dropWhile (\<lambda>x. x \<noteq> nl) (longLine @ nl # r) = nl # r"
    unfolding longLine_def by (rule replicate_line [OF x])
  have s: "longLine = replicate (Suc (maxScanTokenSize - 1)) (CHR ''x'')"
    unfolding longLine_def using maxScanTokenSize_Suc by simp
  show "longLine \<noteq> []" unfolding s by simp
  show "firstField longLine = longLine" unfolding s by (rule firstField_x)
qed

text \<open>
  What the parser returns. It reads the lines of the output before the first line of
  64 * 1024 bytes or more, where the scanner gives up, and returns, in the order of the
  lines, the first white-space-delimited field of each of those lines that is not blank
  and whose field has between 3 and 20 bytes, all ASCII letters or digits. When no line
  is that long, these are all the lines of the output. Whatever the output, every
  identifier returned has that shape: \<^verbatim>\<open>AB\<close> and \<^verbatim>\<open>AB-12\<close> are never returned.
\<close>

lemma parse_listing:
  "parseMailqForIDs out = idsOfLines (takeWhile (\<lambda>l. length l < maxScanTokenSize) (splitNL out))
   \<and> ((\<forall>l\<in>set (splitNL out). length l < maxScanTokenSize) \<longrightarrow>
        parseMailqForIDs out = idsOfLines (splitNL out))
   \<and> (\<forall>x\<in>set (parseMailqForIDs out). idShaped x)
   \<and> ''AB'' \<notin> set (parseMailqForIDs out) \<and> ''AB-12'' \<notin> set (parseMailqForIDs out)"
proof -
  note a = parseMailqForIDs_lines [of out]
  have b: "parseMailqForIDs out = idsOfLines (splitNL out)"
    if "\<forall>l\<in>set (splitNL out). length l < maxScanTokenSize"
  proof -
    from that have "takeWhile (\<lambda>l. length l < maxScanTokenSize) (splitNL out) = splitNL out"
      by simp
    with a show ?thesis by simp
  qed
  have c: "\<forall>x\<in>set (parseMailqForIDs out). idShaped x"
    unfolding a using idsOfLines_shaped by blast
  have "\<not> idShaped ''AB''" by (simp add: idShaped_def)
  moreover have "\<not> idShaped ''AB-12''" by (simp add: idShaped_def alnumChars_def)
  ultimately have d: "''AB'' \<notin> set (parseMailqForIDs out)" "''AB-12'' \<notin> set (parseMailqForIDs out)"
    using c by blast+
  show ?thesis using a b c d by blast
qed

lemma parse_listing_sample:
  "parseMailqForIDs mailqSample = [''AB12CD'', ''ZZ99ZZ'', ''0123456789abcdefghij'']"
proof -
  have s: "splitNL mailqSample =
    [''-Queue ID-  --Size-- ----Arrival Time---- -Sender/Recipient-------'',
     ''AB12CD*    1234 Mon Jan  1 10:00:00  a@example.org'',
     ''AB12CD     1234 Mon Jan  1 10:00:00  a@example.org'' @ [CHR 0x0D],
     ''         (connect to mx.example.org: Connection timed out)'',
     ''                                         b@example.org'', [],
     [CHR 0xC2, CHR 0xA0] @ ''ZZ99ZZ'' @ [CHR 0xE3, CHR 0x80, CHR 0x80] @ ''555 Tue'',
     ''AB   x'', ''AB-12 y'', ''0123456789abcdefghij k'',
     ''0123456789abcdefghijk k'', ''-- 2 Kbytes in 2 Requests.'']"
    by (simp add: mailqSample_def nl_def)
  have "\<forall>l\<in>set (splitNL mailqSample). length l < maxScanTokenSize"
    unfolding s by (simp add: maxScanTokenSize_def)
  with parse_listing [of mailqSample]
  have "parseMailqForIDs mailqSample = idsOfLines (splitNL mailqSample)"
    by blast
  also have "\<dots> = [''AB12CD'', ''ZZ99ZZ'', ''0123456789abcdefghij'']"
    by code_simp
  finally show ?thesis .
qed

text \<open>
  Claim C6 at its failing input. The output is a line of 64 * 1024 bytes and a second
  line that starts with the identifier \<^verbatim>\<open>ABC123\<close>. \<^verbatim>\<open>Scan\<close> returns false on the first
  line and the loop ends, \<^verbatim>\<open>scanner.Err()\<close> is not looked at, and the parser returns
  nothing; the first fields of the lines that are not blank and have the shape of an
  identifier are the one identifier \<^verbatim>\<open>ABC123\<close>.
\<close>

theorem long_line_stops_listing:
  "parseMailqForIDs (longLine @ [nl] @ ''ABC123'') = []
   \<and> idsOfLines (splitNL (longLine @ [nl] @ ''ABC123'')) = [''ABC123'']"
proof -
  have "scanLines (longLine @ nl # ''ABC123'') = []"
    using longLine_props(4) by (subst scanLines_Cons) (simp_all add: longLine_props)
  then have a: "parseMailqForIDs (longLine @ [nl] @ ''ABC123'') = []"
    by (simp add: parseMailqForIDs_def)
  have "splitNL ''ABC123'' = [''ABC123'']" by (simp add: nl_def)
  then have s: "splitNL (longLine @ nl # ''ABC123'') = [longLine, ''ABC123'']"
    by (subst splitNL_takeWhile) (simp add: longLine_props)
  have "\<not> 65536 \<le> (20::nat)" by simp
  then have l: "\<not> idShaped (firstField longLine)"
    unfolding longLine_props(5) idShaped_def longLine_props(1) maxScanTokenSize_def by simp
  have f: "firstField ''ABC123'' = ''ABC123''" "\<not> blank ''ABC123''" by code_simp+
  have i: "idShaped ''ABC123''" by (simp add: idShaped_def alnumChars_def)
  have "idsOfLines [longLine, ''ABC123''] = [''ABC123'']"
    using l f i by (simp add: idsOfLines_def)
  with a s show ?thesis by simp
qed


end
